theory Spec2Isabelle
  imports Complex_Main "HOL-Library.AList" "HOL-Library.Char_ord" "HOL-Library.List_Lexorder"
    "HOL-Library.Multiset"
begin

section \<open>Values, library functions and data model\<close>

text \<open>
  Go's \<^verbatim>\<open>interface{}\<close> values as they occur in a record: a string, an \<^verbatim>\<open>int\<close>, a
  \<^verbatim>\<open>float64\<close>, and the dynamic types the type switch of \<^verbatim>\<open>setValueForResult\<close> sends
  to its \<^verbatim>\<open>default\<close> branch (a boolean and \<^verbatim>\<open>nil\<close> stand for them). The type \<open>'f\<close>
  stands for \<^verbatim>\<open>float64\<close>; no arithmetic is done on it, values are only stored.
\<close>

datatype 'f iface = VString string | VInt int | VFloat64 'f | VBool bool | VNil

text \<open>
  The functions of Go's standard library that the code calls, taken as parameters:
  \<^verbatim>\<open>strconv.ParseFloat(t, 64)\<close> (\<open>None\<close> is its error), the conversion \<^verbatim>\<open>float64(t)\<close> of an
  \<^verbatim>\<open>int\<close>, \<^verbatim>\<open>json.Marshal\<close> of one value (\<open>None\<close> when it fails) and of a map key,
  \<^verbatim>\<open>fmt.Sprintf("%v", v)\<close> and \<^verbatim>\<open>strings.ToLower\<close>.
\<close>

record 'f golib =
  ParseFloat :: "string \<Rightarrow> 'f option"
  float64_of_int :: "int \<Rightarrow> 'f"
  json_value :: "'f iface \<Rightarrow> string option"
  json_key :: "string \<Rightarrow> string"
  Sprint :: "'f iface \<Rightarrow> string"
  ToLower :: "string \<Rightarrow> string"

datatype metricStatus = registered | unregistered

text \<open>The fields of \<^verbatim>\<open>Query\<close> that \<^verbatim>\<open>QueryResult\<close> reads. \<^verbatim>\<open>SubMetrics\<close> is a Go map; the
  association list gives the order in which \<^verbatim>\<open>range\<close> visits it.\<close>

record Query =
  Name :: string
  DataField :: string
  SubMetrics :: "(string \<times> string) list"

text \<open>A \<^verbatim>\<open>prometheus.Gauge\<close>: the handle (its identity as a pointer), the options it was
  created with and the value last set.\<close>

record 'f Gauge =
  handle :: nat
  GName :: string
  Help :: string
  ConstLabels :: "(string \<times> string) list"
  gvalue :: 'f

text \<open>
  A \<^verbatim>\<open>QueryResult\<close> with the part of the world it acts on: the map \<^verbatim>\<open>Result\<close>, the
  handles held by the default Prometheus registry, and the next unused handle. Of the
  Prometheus client only this is kept: \<^verbatim>\<open>NewGauge\<close> returns a gauge with a handle of its
  own and the value 0, \<^verbatim>\<open>Set\<close> stores a value, \<^verbatim>\<open>MustRegister\<close> adds a handle to the registry
  and \<^verbatim>\<open>Unregister\<close> removes it. The checks the client makes on names and labels when a
  gauge is registered are not part of it: the client identifies a collector by its name
  and constant labels, \<^verbatim>\<open>MustRegister\<close> panics when a collector of the same description is
  registered already, and \<^verbatim>\<open>Unregister\<close> removes the collector of that description; here
  both go by the handle. The two agree as long as the published gauges differ in name or
  constant labels. What is proved about \<^verbatim>\<open>SetMetrics\<close> and the map \<^verbatim>\<open>Result\<close> does not depend
  on this part.
\<close>

record 'f QueryResult =
  Query :: Query
  Result :: "(string \<times> 'f Gauge) list"
  published :: "nat list"
  fresh :: nat

text \<open>
  A \<^verbatim>\<open>record\<close> is a Go map from column names to values, \<^verbatim>\<open>records\<close> a slice of them. As
  for every Go map here, the association list has each key once and gives the order in
  which \<^verbatim>\<open>range\<close> visits the entries, which Go leaves open; a statement for all lists
  covers every order. Go may visit a map in another order each time it is ranged over, so
  two rounds over the same record set are two lists with the same entries, and so are the
  visits of one row for two sub-metrics. The list fixes one order per row within a call
  of \<^verbatim>\<open>SetMetrics\<close>; when the column names of a row are distinct after lower-casing the
  order has no effect on the outcome (lemma \<open>pair_outcome_perm\<close>).
\<close>

type_synonym 'f record_ = "(string \<times> 'f iface) list"
type_synonym 'f records = "'f record_ list"

text \<open>The errors of \<^verbatim>\<open>SetMetrics\<close>, one per \<^verbatim>\<open>return nil, err\<close>; \<open>ErrNilGauge\<close> stands for the
  call of a method on a missing gauge, which the code never reaches.\<close>

datatype error =
    ErrSingleColumnMultiRow
  | ErrSubMetricsDataField
  | ErrDataFieldNotSpecified
  | ErrDataFieldNotFound
  | ErrParseFloat string
  | ErrUnhandledType
  | ErrNilGauge

definition NewQueryResult :: "Query \<Rightarrow> 'f QueryResult" where
  "NewQueryResult q = \<lparr>Query = q, Result = [], published = [], fresh = 0\<rparr>"

section \<open>registerMetric\<close>

definition metricName :: "Query \<Rightarrow> string \<Rightarrow> string" where
  "metricName q suffix = (if suffix \<noteq> [] then Name q @ ''_'' @ suffix else Name q)"

fun join_comma :: "string list \<Rightarrow> string" where
  "join_comma [] = []"
| "join_comma [x] = x"
| "join_comma (x # y # ys) = x @ '','' @ join_comma (y # ys)"

text \<open>\<^verbatim>\<open>json.Marshal\<close> of a \<^verbatim>\<open>map[string]interface{}\<close>: an object whose members are sorted
  by key; it fails when one of the values cannot be encoded.\<close>

definition json_member :: "'f golib \<Rightarrow> string \<times> 'f iface \<Rightarrow> string option" where
  "json_member L kv = (case json_value L (snd kv) of
      None \<Rightarrow> None
    | Some j \<Rightarrow> Some (json_key L (fst kv) @ '':'' @ j))"

definition Marshal :: "'f golib \<Rightarrow> (string \<times> 'f iface) list \<Rightarrow> string option" where
  "Marshal L facets =
     (let ms = map (json_member L) (sort_key fst facets)
      in if list_all (\<lambda>m. m \<noteq> None) ms
         then Some (''{'' @ join_comma (map the ms) @ ''}'')
         else None)"

text \<open>The error of \<^verbatim>\<open>json.Marshal\<close> is dropped by the code, which then formats the nil
  byte slice: the empty string.\<close>

definition resultKey :: "'f golib \<Rightarrow> Query \<Rightarrow> (string \<times> 'f iface) list \<Rightarrow> string \<Rightarrow> string" where
  "resultKey L q facets suffix =
     metricName q suffix @ (case Marshal L facets of None \<Rightarrow> [] | Some j \<Rightarrow> j)"

fun mkLabels :: "'f golib \<Rightarrow> (string \<times> 'f iface) list \<Rightarrow> (string \<times> string) list
                  \<Rightarrow> (string \<times> string) list" where
  "mkLabels L [] labels = labels"
| "mkLabels L ((k, v) # kvs) labels = mkLabels L kvs (AList.update k (ToLower L (Sprint L v)) labels)"

definition NewGauge :: "nat \<Rightarrow> string \<Rightarrow> (string \<times> string) list \<Rightarrow> ('f::zero) Gauge" where
  "NewGauge h metric labels =
     \<lparr>handle = h, GName = ''query_result_'' @ metric,
      Help = ''Result of an SQL query'', ConstLabels = labels, gvalue = 0\<rparr>"

definition registerMetric ::
  "'f golib \<Rightarrow> ('f::zero) QueryResult \<Rightarrow> (string \<times> 'f iface) list \<Rightarrow> string
     \<Rightarrow> (string \<times> metricStatus) \<times> 'f QueryResult" where
  "registerMetric L r facets suffix =
     (let name = metricName (Query r) suffix;
          key = resultKey L (Query r) facets suffix;
          labels = mkLabels L facets []
      in case map_of (Result r) key of
           Some _ \<Rightarrow> ((key, registered), r)
         | None \<Rightarrow> ((key, unregistered),
                     r\<lparr>Result := AList.update key (NewGauge (fresh r) name labels) (Result r),
                       fresh := Suc (fresh r)\<rparr>))"

section \<open>setValueForResult\<close>

definition setValueForResult :: "'f golib \<Rightarrow> 'f Gauge \<Rightarrow> 'f iface \<Rightarrow> error + 'f Gauge" where
  "setValueForResult L g v =
     (case v of
        VString t \<Rightarrow> (case ParseFloat L t of
                        None \<Rightarrow> Inl (ErrParseFloat t)
                      | Some f \<Rightarrow> Inr (g\<lparr>gvalue := f\<rparr>))
      | VInt t \<Rightarrow> Inr (g\<lparr>gvalue := float64_of_int L t\<rparr>)
      | VFloat64 t \<Rightarrow> Inr (g\<lparr>gvalue := t\<rparr>)
      | _ \<Rightarrow> Inl ErrUnhandledType)"

section \<open>SetMetrics\<close>

text \<open>The effective sub-metric map.\<close>

definition submetrics_of :: "Query \<Rightarrow> (string \<times> string) list" where
  "submetrics_of q = (if length (SubMetrics q) > 0 then SubMetrics q else [([], DataField q)])"

text \<open>
  The loop over the columns of one row (\<^verbatim>\<open>for k, v := range row\<close>). \<open>n\<close> is \<^verbatim>\<open>len(row)\<close>;
  the pair \<^verbatim>\<open>dataVal, dataFound\<close> is an option, \<open>Some v\<close> once \<^verbatim>\<open>dataFound\<close> is set.
\<close>

fun columns_loop ::
  "'f golib \<Rightarrow> (string \<times> string) list \<Rightarrow> string \<Rightarrow> nat \<Rightarrow> 'f record_
     \<Rightarrow> (string \<times> 'f iface) list \<Rightarrow> 'f iface option
     \<Rightarrow> error + ((string \<times> 'f iface) list \<times> 'f iface option)" where
  "columns_loop L submetrics datafield n [] facet dataVal = Inr (facet, dataVal)"
| "columns_loop L submetrics datafield n ((k, v) # row) facet dataVal =
     (if n > 1 \<and> ToLower L k \<noteq> datafield then
        (let submetric = list_ex (\<lambda>n. ToLower L k = n) (map snd submetrics)
         in columns_loop L submetrics datafield n row
              (if \<not> submetric then AList.update (ToLower L k) v facet else facet) dataVal)
      else
        (case dataVal of
           Some _ \<Rightarrow> Inl ErrDataFieldNotSpecified
         | None \<Rightarrow> columns_loop L submetrics datafield n row facet (Some v)))"

text \<open>Writing through the handle stored under \<open>key\<close>; a missing entry would be a nil
  interface in Go.\<close>

definition setResult :: "'f golib \<Rightarrow> 'f QueryResult \<Rightarrow> string \<Rightarrow> 'f iface \<Rightarrow> error + 'f QueryResult" where
  "setResult L r key v =
     (case map_of (Result r) key of
        None \<Rightarrow> Inl ErrNilGauge
      | Some g \<Rightarrow> (case setValueForResult L g v of
                    Inl e \<Rightarrow> Inl e
                  | Inr g' \<Rightarrow> Inr (r\<lparr>Result := AList.update key g' (Result r)\<rparr>)))"

text \<open>
  The loop over the sub-metrics for one row. The registry is mutated in place by the
  code, so the state is returned also when the loop stops with an error.
\<close>

fun submetrics_loop ::
  "'f golib \<Rightarrow> (string \<times> string) list \<Rightarrow> 'f record_ \<Rightarrow> (string \<times> string) list
     \<Rightarrow> (string \<times> metricStatus) list \<Rightarrow> ('f::zero) QueryResult
     \<Rightarrow> (error + (string \<times> metricStatus) list) \<times> 'f QueryResult" where
  "submetrics_loop L submetrics row [] facetsWithResult r = (Inr facetsWithResult, r)"
| "submetrics_loop L submetrics row ((suffix, datafield) # rest) facetsWithResult r =
     (case columns_loop L submetrics datafield (length row) row [] None of
        Inl e \<Rightarrow> (Inl e, r)
      | Inr (facet, None) \<Rightarrow> (Inl ErrDataFieldNotFound, r)
      | Inr (facet, Some dataVal) \<Rightarrow>
          (case registerMetric L r facet suffix of
             ((key, status), r1) \<Rightarrow>
               (case setResult L r1 key dataVal of
                  Inl e \<Rightarrow> (Inl e, r1)
                | Inr r2 \<Rightarrow>
                    submetrics_loop L submetrics row rest
                      (AList.update key status facetsWithResult) r2)))"

fun rows_loop ::
  "'f golib \<Rightarrow> (string \<times> string) list \<Rightarrow> 'f records
     \<Rightarrow> (string \<times> metricStatus) list \<Rightarrow> ('f::zero) QueryResult
     \<Rightarrow> (error + (string \<times> metricStatus) list) \<times> 'f QueryResult" where
  "rows_loop L submetrics [] facetsWithResult r = (Inr facetsWithResult, r)"
| "rows_loop L submetrics (row # recs) facetsWithResult r =
     (case submetrics_loop L submetrics row submetrics facetsWithResult r of
        (Inl e, r1) \<Rightarrow> (Inl e, r1)
      | (Inr fwr, r1) \<Rightarrow> rows_loop L submetrics recs fwr r1)"

definition SetMetrics ::
  "'f golib \<Rightarrow> ('f::zero) QueryResult \<Rightarrow> 'f records
     \<Rightarrow> (error + (string \<times> metricStatus) list) \<times> 'f QueryResult" where
  "SetMetrics L r recs =
     (if length recs > 1 \<and> length (hd recs) = 1 then (Inl ErrSingleColumnMultiRow, r)
      else if DataField (Query r) \<noteq> [] \<and> length (SubMetrics (Query r)) > 0
           then (Inl ErrSubMetricsDataField, r)
      else rows_loop L (submetrics_of (Query r)) recs [] r)"

section \<open>RegisterMetrics and the worker\<close>

text \<open>
  The loop of \<^verbatim>\<open>RegisterMetrics\<close> over the entries of \<^verbatim>\<open>Result\<close>: an entry whose key is not
  in \<^verbatim>\<open>facetsWithResult\<close> is unregistered and deleted; for an entry recorded as
  \<^verbatim>\<open>unregistered\<close> the call of \<^verbatim>\<open>MustRegister\<close> is deferred. The deferred calls are
  collected with the latest in front, the order in which they run on return.
  \<^verbatim>\<open>prometheus.Unregister(m)\<close> is the removal of the handle of \<open>m\<close> from the published
  handles and \<^verbatim>\<open>prometheus.MustRegister(m)\<close> its addition; a panic of \<^verbatim>\<open>MustRegister\<close> on a
  gauge whose name and constant labels are those of a published one is not modelled.
\<close>

fun register_loop ::
  "(string \<times> metricStatus) list \<Rightarrow> (string \<times> 'f Gauge) list \<Rightarrow> nat list \<Rightarrow> 'f QueryResult
     \<Rightarrow> nat list \<times> 'f QueryResult" where
  "register_loop facetsWithResult [] deferred r = (deferred, r)"
| "register_loop facetsWithResult ((key, m) # entries) deferred r =
     (case map_of facetsWithResult key of
        None \<Rightarrow> register_loop facetsWithResult entries deferred
                 (r\<lparr>Result := AList.delete key (Result r),
                   published := removeAll (handle m) (published r)\<rparr>)
      | Some status \<Rightarrow>
          register_loop facetsWithResult entries
            (if status = unregistered then handle m # deferred else deferred) r)"

fun run_deferred :: "nat list \<Rightarrow> 'f QueryResult \<Rightarrow> 'f QueryResult" where
  "run_deferred [] r = r"
| "run_deferred (h # hs) r = run_deferred hs (r\<lparr>published := h # published r\<rparr>)"

definition RegisterMetrics ::
  "'f QueryResult \<Rightarrow> (string \<times> metricStatus) list \<Rightarrow> 'f QueryResult" where
  "RegisterMetrics r facetsWithResult =
     (case register_loop facetsWithResult (Result r) [] r of
        (deferred, r1) \<Rightarrow> run_deferred deferred r1)"

text \<open>\<^verbatim>\<open>Worker.SetMetrics\<close>: on an error the worker logs and returns.\<close>

definition Worker_SetMetrics :: "'f golib \<Rightarrow> ('f::zero) QueryResult \<Rightarrow> 'f records \<Rightarrow> 'f QueryResult" where
  "Worker_SetMetrics L r recs =
     (case SetMetrics L r recs of
        (Inl err, r1) \<Rightarrow> r1
      | (Inr list, r1) \<Rightarrow> RegisterMetrics r1 list)"

section \<open>A concrete library for the worked examples\<close>

text \<open>
  The theorems below hold for every library \<open>L\<close>. The worked examples run the code with
  \<open>go_lib\<close>, which takes \<^verbatim>\<open>float64\<close> values as the rationals they denote and follows Go on
  the inputs the examples use: ASCII strings, integers, and decimal literals with a short
  exact expansion. It does not round, has no infinities or NaN, and leaves bytes above
  127 alone.
\<close>

fun digits_of :: "nat \<Rightarrow> nat \<Rightarrow> string" where
  "digits_of 0 n = []"
| "digits_of (Suc fuel) n =
     (if n < 10 then [char_of (48 + n)]
      else digits_of fuel (n div 10) @ [char_of (48 + n mod 10)])"

definition FormatInt :: "int \<Rightarrow> string" where
  "FormatInt i = (if i < 0 then ''-'' @ digits_of (Suc (nat (- i))) (nat (- i))
                  else digits_of (Suc (nat i)) (nat i))"

fun frac_digits :: "nat \<Rightarrow> rat \<Rightarrow> string" where
  "frac_digits 0 x = []"
| "frac_digits (Suc fuel) x =
     (if x = 0 then []
      else (let d = \<lfloor>x * 10\<rfloor> in char_of (48 + nat d) # frac_digits fuel (x * 10 - of_int d)))"

definition FormatFloat :: "rat \<Rightarrow> string" where
  "FormatFloat x =
     (let a = \<bar>x\<bar>; i = \<lfloor>a\<rfloor>; f = a - of_int i
      in (if x < 0 then ''-'' else []) @ FormatInt i @
         (if f = 0 then [] else ''.'' @ frac_digits 20 f))"

definition is_digit :: "char \<Rightarrow> bool" where
  "is_digit c = (CHR ''0'' \<le> c \<and> c \<le> CHR ''9'')"

fun digits_value :: "string \<Rightarrow> nat \<Rightarrow> nat" where
  "digits_value [] acc = acc"
| "digits_value (c # cs) acc = digits_value cs (acc * 10 + (of_char c - 48))"

text \<open>Decimal literals \<^verbatim>\<open>[+-]digits[.digits]\<close> with at least one digit.\<close>

definition parse_decimal :: "string \<Rightarrow> rat option" where
  "parse_decimal s =
     (let neg = (s \<noteq> [] \<and> hd s = CHR ''-'');
          body = (if s \<noteq> [] \<and> (hd s = CHR ''-'' \<or> hd s = CHR ''+'') then tl s else s);
          ip = takeWhile is_digit body;
          rest = dropWhile is_digit body;
          fp = (if rest \<noteq> [] \<and> hd rest = CHR ''.'' then takeWhile is_digit (tl rest) else []);
          tail = (if rest \<noteq> [] \<and> hd rest = CHR ''.'' then dropWhile is_digit (tl rest) else rest);
          m = Fract (int (digits_value (ip @ fp) 0)) (10 ^ length fp)
      in if tail \<noteq> [] \<or> ip @ fp = [] then None
         else Some (if neg then - m else m))"

definition hex_digit :: "nat \<Rightarrow> char" where
  "hex_digit n = (if n < 10 then char_of (48 + n) else char_of (87 + n))"

fun json_escape :: "string \<Rightarrow> string" where
  "json_escape [] = []"
| "json_escape (c # cs) =
     (if c = CHR 0x22 then [CHR 0x5C, CHR 0x22]
      else if c = CHR 0x5C then [CHR 0x5C, CHR 0x5C]
      else if c = CHR 0x0A then [CHR 0x5C, CHR ''n'']
      else if c = CHR 0x0D then [CHR 0x5C, CHR ''r'']
      else if c = CHR 0x09 then [CHR 0x5C, CHR ''t'']
      else if (of_char c :: nat) < 32 \<or> c = CHR ''<'' \<or> c = CHR ''>'' \<or> c = CHR ''&''
        then [CHR 0x5C, CHR ''u'', CHR ''0'', CHR ''0'',
              hex_digit ((of_char c) div 16), hex_digit ((of_char c) mod 16)]
      else [c]) @ json_escape cs"

definition json_quote :: "string \<Rightarrow> string" where
  "json_quote s = [CHR 0x22] @ json_escape s @ [CHR 0x22]"

definition ascii_lower :: "string \<Rightarrow> string" where
  "ascii_lower s = map (\<lambda>c. if CHR ''A'' \<le> c \<and> c \<le> CHR ''Z'' then char_of (of_char c + (32::nat)) else c) s"

definition go_lib :: "rat golib" where
  "go_lib = \<lparr>
     ParseFloat = parse_decimal,
     float64_of_int = of_int,
     json_value = (\<lambda>v. case v of
         VString s \<Rightarrow> Some (json_quote s)
       | VInt i \<Rightarrow> Some (FormatInt i)
       | VFloat64 f \<Rightarrow> Some (FormatFloat f)
       | VBool b \<Rightarrow> Some (if b then ''true'' else ''false'')
       | VNil \<Rightarrow> Some ''null''),
     json_key = json_quote,
     Sprint = (\<lambda>v. case v of
         VString s \<Rightarrow> s
       | VInt i \<Rightarrow> FormatInt i
       | VFloat64 f \<Rightarrow> FormatFloat f
       | VBool b \<Rightarrow> (if b then ''true'' else ''false'')
       | VNil \<Rightarrow> ''<nil>''),
     ToLower = ascii_lower\<rparr>"

section \<open>Notions used to state the properties\<close>

text \<open>
  The test of the column loop, read off its \<^verbatim>\<open>else\<close> branch: a column takes the branch
  of the gauge data when \<^verbatim>\<open>len(row) > 1 && strings.ToLower(k) != datafield\<close> is false.
  Inside the loop the row has at least one column, so this is: the row has exactly one
  column, or the lower-cased name is the data field.
\<close>

definition is_value_column :: "'f golib \<Rightarrow> nat \<Rightarrow> string \<Rightarrow> string \<Rightarrow> bool" where
  "is_value_column L n datafield k = (n = 1 \<or> ToLower L k = datafield)"

text \<open>The columns of a row that take the data branch, and those that end up in the
  facet: not a value column and not the data field of any sub-metric. \<open>facet_of\<close> is the
  facet map the column loop builds from them, \<open>coerce\<close> the number that
  \<^verbatim>\<open>setValueForResult\<close> stores. The lemmas \<open>columns_loop_call\<close> and
  \<open>setValueForResult_coerce\<close> below tie them to the code.\<close>

definition value_columns :: "'f golib \<Rightarrow> string \<Rightarrow> 'f record_ \<Rightarrow> 'f record_" where
  "value_columns L datafield row = filter (\<lambda>kv. is_value_column L (length row) datafield (fst kv)) row"

definition facet_columns :: "'f golib \<Rightarrow> (string \<times> string) list \<Rightarrow> string \<Rightarrow> 'f record_ \<Rightarrow> 'f record_" where
  "facet_columns L submetrics datafield row =
     filter (\<lambda>kv. \<not> is_value_column L (length row) datafield (fst kv)
                  \<and> ToLower L (fst kv) \<notin> snd ` set submetrics) row"

definition facet_of :: "'f golib \<Rightarrow> (string \<times> string) list \<Rightarrow> string \<Rightarrow> 'f record_ \<Rightarrow> (string \<times> 'f iface) list" where
  "facet_of L submetrics datafield row =
     fold (\<lambda>kv f. AList.update (ToLower L (fst kv)) (snd kv) f) (facet_columns L submetrics datafield row) []"

definition coerce :: "'f golib \<Rightarrow> 'f iface \<Rightarrow> error + 'f" where
  "coerce L v = (case v of
      VString t \<Rightarrow> (case ParseFloat L t of None \<Rightarrow> Inl (ErrParseFloat t) | Some f \<Rightarrow> Inr f)
    | VInt t \<Rightarrow> Inr (float64_of_int L t)
    | VFloat64 t \<Rightarrow> Inr t
    | _ \<Rightarrow> Inl ErrUnhandledType)"

text \<open>The outcome of one (row, sub-metric) pair, without the registry.\<close>

definition pair_outcome :: "'f golib \<Rightarrow> (string \<times> string) list \<Rightarrow> 'f record_ \<Rightarrow> string \<Rightarrow> error + ((string \<times> 'f iface) list \<times> 'f)" where
  "pair_outcome L sm row df =
     (case value_columns L df row of
        [] \<Rightarrow> Inl ErrDataFieldNotFound
      | [kv] \<Rightarrow> (case coerce L (snd kv) of Inl e \<Rightarrow> Inl e | Inr f \<Rightarrow> Inr (facet_of L sm df row, f))
      | _ \<Rightarrow> Inl ErrDataFieldNotSpecified)"

text \<open>What every call of \<^verbatim>\<open>SetMetrics\<close> preserves: the query, the published handles, and
  each entry up to the value of its gauge.\<close>

definition keeps :: "'f QueryResult \<Rightarrow> 'f QueryResult \<Rightarrow> bool" where
  "keeps r r' =
     (Query r' = Query r \<and> published r' = published r \<and> fresh r \<le> fresh r'
      \<and> (\<forall>k g. map_of (Result r) k = Some g \<longrightarrow>
            (\<exists>g'. map_of (Result r') k = Some g' \<and> g'\<lparr>gvalue := gvalue g\<rparr> = g)))"

text \<open>The data of the worked examples: a query \<^verbatim>\<open>q\<close> with data field \<^verbatim>\<open>v\<close>, rows with a
  \<^verbatim>\<open>host\<close> column, and the keys and gauges they lead to.\<close>

definition host_query :: Query where
  "host_query = \<lparr>Name = ''q'', DataField = ''v'', SubMetrics = []\<rparr>"

definition host_row :: "string \<Rightarrow> 'f iface \<Rightarrow> 'f record_" where
  "host_row h v = [(''host'', VString h), (''v'', v)]"

definition host_key :: "string \<Rightarrow> string" where
  "host_key h = ''q{'' @ [CHR 0x22] @ ''host'' @ [CHR 0x22] @ '':'' @ [CHR 0x22] @ h @ [CHR 0x22] @ ''}''"

definition host_gauge :: "nat \<Rightarrow> string \<Rightarrow> rat \<Rightarrow> rat Gauge" where
  "host_gauge n h x = \<lparr>handle = n, GName = ''query_result_q'', Help = ''Result of an SQL query'',
      ConstLabels = [(''host'', h)], gvalue = x\<rparr>"

text \<open>
  One successful (row, sub-metric) pair as a single step on the recorded statuses and the
  registry: \<^verbatim>\<open>registerMetric\<close> followed by the write of the coerced value.
\<close>

definition write_op ::
  "'f golib \<Rightarrow> string \<times> (string \<times> 'f iface) list \<times> 'f
     \<Rightarrow> (string \<times> metricStatus) list \<times> ('f::zero) QueryResult
     \<Rightarrow> (string \<times> metricStatus) list \<times> 'f QueryResult" where
  "write_op L w s =
     (case w of (suffix, facet, f) \<Rightarrow>
      case s of (fwr, r) \<Rightarrow>
        (let key = resultKey L (Query r) facet suffix
         in case map_of (Result r) key of
              Some g \<Rightarrow> (AList.update key registered fwr,
                         r\<lparr>Result := AList.update key (g\<lparr>gvalue := f\<rparr>) (Result r)\<rparr>)
            | None \<Rightarrow> (AList.update key unregistered fwr,
                       r\<lparr>fresh := Suc (fresh r),
                         Result := AList.update key
                            ((NewGauge (fresh r) (metricName (Query r) suffix) (mkLabels L facet []))
                               \<lparr>gvalue := f\<rparr>) (Result r)\<rparr>)))"

text \<open>The writes of a row and of a record set, in the order of the loops.\<close>

definition row_writes ::
  "'f golib \<Rightarrow> (string \<times> string) list \<Rightarrow> 'f record_ \<Rightarrow> (string \<times> string) list
     \<Rightarrow> (string \<times> (string \<times> 'f iface) list \<times> 'f) list" where
  "row_writes L sm row sds =
     concat (map (\<lambda>sd. case pair_outcome L sm row (snd sd) of
                          Inl e \<Rightarrow> []
                        | Inr (facet, f) \<Rightarrow> [(fst sd, facet, f)]) sds)"

definition writes ::
  "'f golib \<Rightarrow> (string \<times> string) list \<Rightarrow> 'f records
     \<Rightarrow> (string \<times> (string \<times> 'f iface) list \<times> 'f) list" where
  "writes L sm recs = concat (map (\<lambda>row. row_writes L sm row sm) recs)"

text \<open>The series key of a write, the value last written under a key, and the registries
  that represent a Go map of distinct gauges: keys and handles occur once each and every
  handle is below the next unused one.\<close>

definition wkey :: "'f golib \<Rightarrow> Query \<Rightarrow> string \<times> (string \<times> 'f iface) list \<times> 'f \<Rightarrow> string" where
  "wkey L q w = resultKey L q (fst (snd w)) (fst w)"

definition well_formed :: "'f QueryResult \<Rightarrow> bool" where
  "well_formed r = (distinct (map fst (Result r)) \<and> distinct (map (\<lambda>kg. handle (snd kg)) (Result r))
           \<and> (\<forall>kg \<in> set (Result r). handle (snd kg) < fresh r))"

definition last_value ::
  "'f golib \<Rightarrow> Query \<Rightarrow> (string \<times> (string \<times> 'f iface) list \<times> 'f) list \<Rightarrow> string \<Rightarrow> 'f option" where
  "last_value L q ws = map_of (rev (map (\<lambda>w. (wkey L q w, snd (snd w))) ws))"

text \<open>The entries \<^verbatim>\<open>RegisterMetrics\<close> unregisters and deletes, and those it registers.\<close>

definition evicted :: "(string \<times> metricStatus) list \<Rightarrow> (string \<times> 'f Gauge) list \<Rightarrow> (string \<times> 'f Gauge) list" where
  "evicted fwr es = filter (\<lambda>kg. map_of fwr (fst kg) = None) es"

definition newly :: "(string \<times> metricStatus) list \<Rightarrow> (string \<times> 'f Gauge) list \<Rightarrow> (string \<times> 'f Gauge) list" where
  "newly fwr es = filter (\<lambda>kg. map_of fwr (fst kg) = Some unregistered) es"

text \<open>The series keys of all (row, sub-metric) pairs of a record set.\<close>

definition produced_keys :: "'f golib \<Rightarrow> Query \<Rightarrow> 'f records \<Rightarrow> string set" where
  "produced_keys L q recs =
     (\<lambda>(row, sd). resultKey L q (facet_of L (submetrics_of q) (snd sd) row) (fst sd))
       ` (set recs \<times> set (submetrics_of q))"


text \<open>Two record sets that hold the same maps row by row, the columns possibly visited in
  another order.\<close>

definition same_rows :: "'f records \<Rightarrow> 'f records \<Rightarrow> bool" where
  "same_rows recs' recs = list_all2 (\<lambda>row' row. mset row' = mset row) recs' recs"

text \<open>A query with two sub-metrics, \<^verbatim>\<open>in\<close> read from column \<^verbatim>\<open>rx\<close> and \<^verbatim>\<open>out\<close> from \<^verbatim>\<open>tx\<close>,
  the same query with the sub-metric map visited in the other order, and the rows, keys
  and entries of its worked example.\<close>

definition traffic_query :: Query where
  "traffic_query = \<lparr>Name = ''t'', DataField = [], SubMetrics = [(''in'', ''rx''), (''out'', ''tx'')]\<rparr>"

definition traffic_query_rev :: Query where
  "traffic_query_rev = \<lparr>Name = ''t'', DataField = [], SubMetrics = [(''out'', ''tx''), (''in'', ''rx'')]\<rparr>"

definition traffic_row :: "string \<Rightarrow> int \<Rightarrow> int \<Rightarrow> rat record_" where
  "traffic_row h x y = [(''host'', VString h), (''rx'', VInt x), (''tx'', VInt y)]"

definition traffic_key :: "string \<Rightarrow> string \<Rightarrow> string" where
  "traffic_key suffix h =
     ''t_'' @ suffix @ ''{'' @ [CHR 0x22] @ ''host'' @ [CHR 0x22] @ '':'' @ [CHR 0x22] @ h @ [CHR 0x22] @ ''}''"

definition traffic_gauge :: "nat \<Rightarrow> string \<Rightarrow> string \<Rightarrow> rat \<Rightarrow> rat Gauge" where
  "traffic_gauge n suffix h x =
     \<lparr>handle = n, GName = ''query_result_t_'' @ suffix, Help = ''Result of an SQL query'',
      ConstLabels = [(''host'', h)], gvalue = x\<rparr>"

definition traffic_entries :: "(string \<times> rat Gauge) list" where
  "traffic_entries =
     [(traffic_key ''in'' ''a'', traffic_gauge 0 ''in'' ''a'' 1),
      (traffic_key ''out'' ''a'', traffic_gauge 1 ''out'' ''a'' 2),
      (traffic_key ''in'' ''b'', traffic_gauge 2 ''in'' ''b'' 3),
      (traffic_key ''out'' ''b'', traffic_gauge 3 ''out'' ''b'' 4)]"

section \<open>The loops, step by step\<close>

lemma columns_loop_gen:
  assumes "n \<ge> 1"
  shows "columns_loop L sm df n row facet dv =
     (let vs = filter (\<lambda>kv. is_value_column L n df (fst kv)) row;
          fs = filter (\<lambda>kv. \<not> is_value_column L n df (fst kv) \<and> ToLower L (fst kv) \<notin> snd ` set sm) row
      in if length vs + (case dv of None \<Rightarrow> 0 | Some _ \<Rightarrow> 1) > 1 then Inl ErrDataFieldNotSpecified
         else Inr (fold (\<lambda>kv f. AList.update (ToLower L (fst kv)) (snd kv) f) fs facet,
                   case vs of [] \<Rightarrow> dv | kv # _ \<Rightarrow> Some (snd kv)))"
  using assms
proof (induction row arbitrary: facet dv)
  case Nil
  then show ?case by (simp split: option.splits)
next
  case (Cons kv row)
  obtain k v where kv: "kv = (k, v)" by (cases kv)
  show ?case
  proof (cases "is_value_column L n df k")
    case True
    then have c: "\<not> (n > 1 \<and> ToLower L k \<noteq> df)" by (auto simp: is_value_column_def)
    show ?thesis using True c Cons kv
      by (cases dv) (auto simp: Let_def list_ex_iff split: list.splits)
  next
    case False
    then have c: "n > 1 \<and> ToLower L k \<noteq> df" using Cons.prems by (auto simp: is_value_column_def)
    show ?thesis using False c Cons kv
      by (auto simp: Let_def list_ex_iff image_iff)
  qed
qed

lemma columns_loop_call:
  "columns_loop L sm df (length row) row [] None =
     (case value_columns L df row of
        [] \<Rightarrow> Inr (facet_of L sm df row, None)
      | [kv] \<Rightarrow> Inr (facet_of L sm df row, Some (snd kv))
      | _ \<Rightarrow> Inl ErrDataFieldNotSpecified)"
proof (cases row)
  case Nil
  then show ?thesis by (simp add: value_columns_def facet_of_def facet_columns_def)
next
  case (Cons a list)
  then have "length row \<ge> 1" by simp
  from columns_loop_gen[OF this, of L sm df row "[]" None]
  show ?thesis
    by (auto simp: Let_def value_columns_def facet_of_def facet_columns_def split: list.splits)
qed

lemma setValueForResult_coerce:
  "setValueForResult L g v = (case coerce L v of Inl e \<Rightarrow> Inl e | Inr f \<Rightarrow> Inr (g\<lparr>gvalue := f\<rparr>))"
  by (simp add: setValueForResult_def coerce_def split: iface.splits option.splits)


lemma registerMetric_present:
  "registerMetric L r facets suffix = ((key, st), r1) \<Longrightarrow> map_of (Result r1) key \<noteq> None"
  by (auto simp: registerMetric_def Let_def update_conv' split: option.splits)

lemma submetrics_loop_step:
  "submetrics_loop L sm row ((suffix, df) # rest) fwr r =
     (case pair_outcome L sm row df of
        Inl e \<Rightarrow> (Inl e, if value_columns L df row = [] \<or> length (value_columns L df row) > 1 then r
                          else snd (registerMetric L r (facet_of L sm df row) suffix))
      | Inr (facet, f) \<Rightarrow>
          (case registerMetric L r facet suffix of
             ((key, st), r1) \<Rightarrow>
               submetrics_loop L sm row rest (AList.update key st fwr)
                 (r1\<lparr>Result := AList.update key ((the (map_of (Result r1) key))\<lparr>gvalue := f\<rparr>) (Result r1)\<rparr>)))"
proof -
  obtain key st r1 where rm: "registerMetric L r (facet_of L sm df row) suffix = ((key, st), r1)"
    by (metis prod.exhaust)
  from registerMetric_present[OF rm] obtain g where g: "map_of (Result r1) key = Some g" by auto
  show ?thesis
    by (cases "value_columns L df row" rule: list.exhaust[case_names Nil Cons])
       (auto simp: columns_loop_call pair_outcome_def rm g setResult_def setValueForResult_coerce
             split: list.splits sum.splits)
qed

section \<open>Validation before any row is processed\<close>

text \<open>
  C3. When the record set has more than one row and its first row has exactly one
  column, \<^verbatim>\<open>SetMetrics\<close> returns the error of the first check and the registry is the one
  it was called with: no entry is created or updated, and the worker's call leaves the
  registry and the published handles as they were.
\<close>

theorem C3_multi_row_single_column_rejected:
  assumes "length recs > 1" and "length (hd recs) = 1"
  shows "SetMetrics L r recs = (Inl ErrSingleColumnMultiRow, r) \<and> Worker_SetMetrics L r recs = r"
  using assms by (simp add: SetMetrics_def Worker_SetMetrics_def)

theorem C3_multi_row_single_column_rejected_witness:
  "length [[(''n'', VString ''1'')], [(''n'', VString ''2'')]] > 1
   \<and> length (hd [[(''n'', VString ''1'')], [(''n'', VString ''2'')]]) = 1
   \<and> SetMetrics go_lib (NewQueryResult \<lparr>Name = ''q'', DataField = [], SubMetrics = []\<rparr>)
        [[(''n'', VString ''1'')], [(''n'', VString ''2'')]]
      = (Inl ErrSingleColumnMultiRow, NewQueryResult \<lparr>Name = ''q'', DataField = [], SubMetrics = []\<rparr>)"
  using C3_multi_row_single_column_rejected
    [of "[[(''n'', VString ''1'')], [(''n'', VString ''2'')]]" go_lib
        "NewQueryResult \<lparr>Name = ''q'', DataField = [], SubMetrics = []\<rparr>"]
  by simp

text \<open>
  C5. When \<^verbatim>\<open>DataField\<close> is not empty and \<^verbatim>\<open>SubMetrics\<close> has an entry, \<^verbatim>\<open>SetMetrics\<close>
  returns an error with the registry untouched (the error of the first check when that
  one fires, the incompatibility error otherwise), so no row is processed. When
  \<^verbatim>\<open>SubMetrics\<close> is empty the sub-metric map is the one pair of the empty suffix and
  \<^verbatim>\<open>DataField\<close>, and that map is the one the row loop runs with.
\<close>

theorem C5_datafield_submetrics_exclusive:
  "(DataField (Query r) \<noteq> [] \<and> SubMetrics (Query r) \<noteq> [] \<longrightarrow>
      SetMetrics L r recs =
        (Inl (if length recs > 1 \<and> length (hd recs) = 1 then ErrSingleColumnMultiRow
              else ErrSubMetricsDataField), r)
      \<and> Worker_SetMetrics L r recs = r)
   \<and> (SubMetrics (Query r) = [] \<longrightarrow> submetrics_of (Query r) = [([], DataField (Query r))])
   \<and> (SubMetrics (Query r) = [] \<and> \<not> (length recs > 1 \<and> length (hd recs) = 1) \<longrightarrow>
        SetMetrics L r recs = rows_loop L [([], DataField (Query r))] recs [] r)"
  by (simp add: SetMetrics_def Worker_SetMetrics_def submetrics_of_def)

theorem C5_datafield_submetrics_exclusive_witness:
  "DataField (Query (NewQueryResult \<lparr>Name = ''q'', DataField = ''v'', SubMetrics = [(''a'', ''x'')]\<rparr> :: rat QueryResult)) \<noteq> []
   \<and> SubMetrics (Query (NewQueryResult \<lparr>Name = ''q'', DataField = ''v'', SubMetrics = [(''a'', ''x'')]\<rparr> :: rat QueryResult)) \<noteq> []
   \<and> SetMetrics go_lib (NewQueryResult \<lparr>Name = ''q'', DataField = ''v'', SubMetrics = [(''a'', ''x'')]\<rparr>)
        [[(''host'', VString ''h''), (''v'', VInt 1), (''x'', VInt 2)]]
      = (Inl ErrSubMetricsDataField, NewQueryResult \<lparr>Name = ''q'', DataField = ''v'', SubMetrics = [(''a'', ''x'')]\<rparr>)
   \<and> SubMetrics (Query (NewQueryResult \<lparr>Name = ''q'', DataField = ''v'', SubMetrics = []\<rparr> :: rat QueryResult)) = []
   \<and> submetrics_of (Query (NewQueryResult \<lparr>Name = ''q'', DataField = ''v'', SubMetrics = []\<rparr> :: rat QueryResult)) = [([], ''v'')]"
  using C5_datafield_submetrics_exclusive
    [of "NewQueryResult \<lparr>Name = ''q'', DataField = ''v'', SubMetrics = [(''a'', ''x'')]\<rparr>" go_lib
        "[[(''host'', VString ''h''), (''v'', VInt 1), (''x'', VInt 2)]]"]
    C5_datafield_submetrics_exclusive
    [of "NewQueryResult \<lparr>Name = ''q'', DataField = ''v'', SubMetrics = []\<rparr> :: rat QueryResult" go_lib "[]"]
  by (simp add: NewQueryResult_def)

lemma submetrics_loop_isl:
  "isl (fst (submetrics_loop L sm row sds fwr r)) = (\<exists>sd \<in> set sds. isl (pair_outcome L sm row (snd sd)))"
proof (induction sds arbitrary: fwr r)
  case Nil
  then show ?case by simp
next
  case (Cons sd sds)
  obtain suffix df where sd: "sd = (suffix, df)" by (cases sd)
  show ?case
    unfolding sd submetrics_loop_step
    by (auto simp: Cons.IH split: sum.splits prod.splits)
qed

lemma rows_loop_isl:
  "isl (fst (rows_loop L sm recs fwr r)) =
     (\<exists>row \<in> set recs. \<exists>sd \<in> set sm. isl (pair_outcome L sm row (snd sd)))"
proof (induction recs arbitrary: fwr r)
  case Nil
  then show ?case by simp
next
  case (Cons row recs)
  show ?case
  proof (cases "submetrics_loop L sm row sm fwr r")
    case (Pair res r1)
    show ?thesis
    proof (cases res)
      case (Inl e)
      with Pair submetrics_loop_isl[of L sm row sm fwr r] show ?thesis by auto
    next
      case (Inr f)
      with Pair submetrics_loop_isl[of L sm row sm fwr r] show ?thesis
        by (auto simp: Cons.IH)
    qed
  qed
qed

lemma SetMetrics_isl:
  "isl (fst (SetMetrics L r recs)) =
     ((length recs > 1 \<and> length (hd recs) = 1)
      \<or> (DataField (Query r) \<noteq> [] \<and> SubMetrics (Query r) \<noteq> [])
      \<or> (\<exists>row \<in> set recs. \<exists>sd \<in> set (submetrics_of (Query r)).
            isl (pair_outcome L (submetrics_of (Query r)) row (snd sd))))"
  by (auto simp: SetMetrics_def rows_loop_isl)


section \<open>Value coercion\<close>








section \<open>The value column\<close>



lemma go_lib_simps:
  "ParseFloat go_lib = parse_decimal" "float64_of_int go_lib = of_int"
  "json_key go_lib = json_quote" "ToLower go_lib = ascii_lower"
  "json_value go_lib (VString s) = Some (json_quote s)"
  "Sprint go_lib (VString s) = s"
  by (simp_all add: go_lib_def)




section \<open>A record set of one cell\<close>

lemma Marshal_empty: "Marshal L [] = Some ''{}''"
  by (simp add: Marshal_def)

lemma single_cell_columns:
  "value_columns L df [(k, v)] = [(k, v)]" "facet_of L sm df [(k, v)] = []"
  by (simp_all add: value_columns_def facet_of_def facet_columns_def is_value_column_def)

text \<open>
  C9. For a record set of one row with one column and a query without sub-metrics, the
  column is the value column of the empty-suffix sub-metric whatever its name, and the
  facet is empty: the series key is the query name followed by the encoding of the empty
  object. When the value can be coerced, \<^verbatim>\<open>SetMetrics\<close> succeeds, records that one key, and
  the gauge under it holds the value; when the key was not in the registry before, the
  gauge is a new one, named after the query, with no constant labels, recorded as
  \<^verbatim>\<open>unregistered\<close>.
\<close>

theorem C9_single_cell:
  assumes "SubMetrics (Query r) = []" and "setValueForResult L g v = Inr g'"
  shows "value_columns L (DataField (Query r)) [(k, v)] = [(k, v)]
       \<and> facet_of L (submetrics_of (Query r)) (DataField (Query r)) [(k, v)] = []
       \<and> (\<exists>st r2 g2.
            SetMetrics L r [[(k, v)]] = (Inr [(Name (Query r) @ ''{}'', st)], r2)
          \<and> map_of (Result r2) (Name (Query r) @ ''{}'') = Some g2
          \<and> gvalue g2 = gvalue g'
          \<and> (map_of (Result r) (Name (Query r) @ ''{}'') = None \<longrightarrow>
               st = unregistered \<and> ConstLabels g2 = [] \<and> handle g2 = fresh r
               \<and> GName g2 = ''query_result_'' @ Name (Query r)))"
proof -
  let ?key = "Name (Query r) @ ''{}''"
  from assms(2) obtain f where f: "coerce L v = Inr f" "gvalue g' = f"
    by (auto simp: setValueForResult_coerce split: sum.splits)
  have po: "pair_outcome L [([], DataField (Query r))] [(k, v)] (DataField (Query r)) = Inr ([], f)"
    using f by (simp add: pair_outcome_def single_cell_columns)
  have key: "resultKey L (Query r) [] [] = ?key"
    by (simp add: resultKey_def metricName_def Marshal_empty)
  have sm: "submetrics_of (Query r) = [([], DataField (Query r))]"
    using assms(1) by (simp add: submetrics_of_def)
  have S: "SetMetrics L r [[(k, v)]] =
      (case submetrics_loop L [([], DataField (Query r))] [(k, v)] [([], DataField (Query r))] [] r of
        (Inl e, r1) \<Rightarrow> (Inl e, r1) | (Inr fwr, r1) \<Rightarrow> (Inr fwr, r1))"
    using assms(1) by (simp add: SetMetrics_def sm split: prod.splits sum.splits)
  show ?thesis
  proof (cases "map_of (Result r) ?key")
    case None
    then show ?thesis
      unfolding S submetrics_loop_step po
      by (simp add: single_cell_columns sm registerMetric_def key metricName_def Let_def
          update_conv' NewGauge_def f)
  next
    case (Some g0)
    then show ?thesis
      unfolding S submetrics_loop_step po
      by (simp add: single_cell_columns sm registerMetric_def key metricName_def Let_def
          update_conv' f)
  qed
qed

theorem C9_single_cell_witness:
  "SubMetrics (Query (NewQueryResult \<lparr>Name = ''q'', DataField = ''v'', SubMetrics = []\<rparr> :: rat QueryResult)) = []
   \<and> setValueForResult go_lib (NewGauge 0 ''q'' []) (VInt 7) = Inr ((NewGauge 0 ''q'' [])\<lparr>gvalue := 7\<rparr>)
   \<and> (\<exists>r2 g2.
        SetMetrics go_lib (NewQueryResult \<lparr>Name = ''q'', DataField = ''v'', SubMetrics = []\<rparr>)
          [[(''count(*)'', VInt 7)]] = (Inr [(''q{}'', unregistered)], r2)
      \<and> map_of (Result r2) ''q{}'' = Some g2 \<and> gvalue g2 = 7 \<and> ConstLabels g2 = []
      \<and> GName g2 = ''query_result_q'')"
proof -
  let ?r = "NewQueryResult \<lparr>Name = ''q'', DataField = ''v'', SubMetrics = []\<rparr> :: rat QueryResult"
  let ?g = "NewGauge 0 ''q'' [] :: rat Gauge"
  have h1: "SubMetrics (Query ?r) = []" by (simp add: NewQueryResult_def)
  have h2: "setValueForResult go_lib ?g (VInt 7) = Inr (?g\<lparr>gvalue := 7\<rparr>)"
    by (simp add: setValueForResult_def go_lib_simps)
  have n: "map_of (Result ?r) (Name (Query ?r) @ ''{}'') = None" "Name (Query ?r) = ''q''"
    by (simp_all add: NewQueryResult_def)
  from C9_single_cell[OF h1 h2, of "''count(*)''"] n
  have "\<exists>r2 g2.
        SetMetrics go_lib ?r [[(''count(*)'', VInt 7)]] = (Inr [(''q{}'', unregistered)], r2)
      \<and> map_of (Result r2) ''q{}'' = Some g2 \<and> gvalue g2 = 7 \<and> ConstLabels g2 = []
      \<and> GName g2 = ''query_result_q''"
    by auto
  with h1 h2 show ?thesis by blast
qed

section \<open>What a call of SetMetrics keeps\<close>

lemma keeps_refl: "keeps r r"
  by (simp add: keeps_def)

lemma keeps_trans: "keeps r r1 \<Longrightarrow> keeps r1 r2 \<Longrightarrow> keeps r r2"
proof -
  assume a: "keeps r r1" and b: "keeps r1 r2"
  have "\<exists>g'. map_of (Result r2) k = Some g' \<and> g'\<lparr>gvalue := gvalue g\<rparr> = g"
    if "map_of (Result r) k = Some g" for k g
  proof -
    from a that obtain g1 where g1: "map_of (Result r1) k = Some g1" "g1\<lparr>gvalue := gvalue g\<rparr> = g"
      unfolding keeps_def by blast
    from b g1 obtain g2 where g2: "map_of (Result r2) k = Some g2" "g2\<lparr>gvalue := gvalue g1\<rparr> = g1"
      unfolding keeps_def by blast
    have "g2\<lparr>gvalue := gvalue g\<rparr> = (g2\<lparr>gvalue := gvalue g1\<rparr>)\<lparr>gvalue := gvalue g\<rparr>" by simp
    also have "\<dots> = g1\<lparr>gvalue := gvalue g\<rparr>" by (simp only: g2(2))
    also have "\<dots> = g" by (rule g1(2))
    finally show ?thesis using g2(1) by blast
  qed
  moreover have "Query r2 = Query r" "published r2 = published r" "fresh r \<le> fresh r2"
    using a b unfolding keeps_def by auto
  ultimately show ?thesis unfolding keeps_def by blast
qed

lemma keeps_handle:
  assumes "keeps r r'" and "map_of (Result r) k = Some g"
  shows "\<exists>g1. map_of (Result r') k = Some g1 \<and> handle g1 = handle g"
proof -
  from assms obtain g1 where g1: "map_of (Result r') k = Some g1" "g1\<lparr>gvalue := gvalue g\<rparr> = g"
    unfolding keeps_def by blast
  have "handle g1 = handle (g1\<lparr>gvalue := gvalue g\<rparr>)" by simp
  also have "\<dots> = handle g" by (simp only: g1(2))
  finally show ?thesis using g1(1) by blast
qed

lemma registerMetric_keeps:
  "registerMetric L r facets suffix = (ks, r1) \<Longrightarrow> keeps r r1"
  by (auto simp: registerMetric_def Let_def keeps_def update_conv' split: option.splits)

lemma setResult_keeps:
  "setResult L r key v = Inr r2 \<Longrightarrow> keeps r r2"
  by (auto simp: setResult_def setValueForResult_coerce keeps_def update_conv'
      split: option.splits sum.splits)

lemma submetrics_loop_keeps:
  "keeps r (snd (submetrics_loop L sm row sds fwr r))"
proof (induction sds arbitrary: fwr r)
  case Nil
  then show ?case by (simp add: keeps_refl)
next
  case (Cons sd sds)
  obtain suffix df where sd: "sd = (suffix, df)" by (cases sd)
  show ?case
  proof (cases "columns_loop L sm df (length row) row [] None")
    case (Inl e)
    then show ?thesis by (simp add: sd keeps_refl)
  next
    case (Inr p)
    obtain facet dv where p: "p = (facet, dv)" by (cases p)
    show ?thesis
    proof (cases dv)
      case None
      with Inr p show ?thesis by (simp add: sd keeps_refl)
    next
      case (Some dataVal)
      obtain key st r1 where rm: "registerMetric L r facet suffix = ((key, st), r1)"
        by (metis prod.exhaust)
      note k1 = registerMetric_keeps[OF rm]
      show ?thesis
      proof (cases "setResult L r1 key dataVal")
        case (Inl e)
        with Inr p Some rm k1 show ?thesis by (simp add: sd)
      next
        case (Inr r2)
        have "keeps r r2" using k1 setResult_keeps[OF Inr] by (rule keeps_trans)
        then have "keeps r (snd (submetrics_loop L sm row sds (AList.update key st fwr) r2))"
          using Cons.IH[where fwr="AList.update key st fwr" and r=r2] by (rule keeps_trans)
        with \<open>columns_loop L sm df (length row) row [] None = Inr p\<close> p Some rm Inr
        show ?thesis by (simp add: sd)
      qed
    qed
  qed
qed

lemma rows_loop_keeps:
  "keeps r (snd (rows_loop L sm recs fwr r))"
proof (induction recs arbitrary: fwr r)
  case Nil
  then show ?case by (simp add: keeps_refl)
next
  case (Cons row recs)
  obtain res r1 where s: "submetrics_loop L sm row sm fwr r = (res, r1)" by (metis prod.exhaust)
  have k1: "keeps r r1" using submetrics_loop_keeps[of r L sm row sm fwr] s by simp
  show ?case
  proof (cases res)
    case (Inl e)
    with s k1 show ?thesis by simp
  next
    case (Inr f)
    from k1 Cons.IH[where r=r1 and fwr=f] have "keeps r (snd (rows_loop L sm recs f r1))" by (rule keeps_trans)
    with s Inr show ?thesis by simp
  qed
qed

lemma SetMetrics_keeps: "keeps r (snd (SetMetrics L r recs))"
  by (simp add: SetMetrics_def keeps_refl rows_loop_keeps)

lemma rows_loop_append:
  "rows_loop L sm (xs @ ys) fwr r =
     (case rows_loop L sm xs fwr r of
        (Inl e, r1) \<Rightarrow> (Inl e, r1)
      | (Inr f, r1) \<Rightarrow> rows_loop L sm ys f r1)"
  by (induction xs arbitrary: fwr r) (auto split: prod.splits sum.splits)

section \<open>Errors of SetMetrics\<close>

lemma failing_round:
  "SetMetrics go_lib
     \<lparr>Query = host_query, Result = [(host_key ''a'', host_gauge 0 ''a'' 1)], published = [0], fresh = 1\<rparr>
     [host_row ''a'' (VInt 5), host_row ''b'' (VString ''abc'')]
   = (Inl (ErrParseFloat ''abc''),
      \<lparr>Query = host_query,
       Result = [(host_key ''a'', host_gauge 0 ''a'' 5), (host_key ''b'', host_gauge 1 ''b'' 0)],
       published = [0], fresh = 2\<rparr>)"
  by code_simp

lemma failing_round_prefix:
  "rows_loop go_lib [([], ''v'')] [host_row ''a'' (VInt 5)] []
     \<lparr>Query = host_query, Result = [(host_key ''a'', host_gauge 0 ''a'' 1)], published = [0], fresh = 1\<rparr>
   = (Inr [(host_key ''a'', registered)],
      \<lparr>Query = host_query, Result = [(host_key ''a'', host_gauge 0 ''a'' 5)], published = [0], fresh = 1\<rparr>)"
  by code_simp

text \<open>
  C7. When \<^verbatim>\<open>SetMetrics\<close> returns an error, the worker returns without calling
  \<^verbatim>\<open>RegisterMetrics\<close>: the registry is the one \<^verbatim>\<open>SetMetrics\<close> left, the published handles
  are the ones from before the call, and every entry from before the call is still
  there under its key with its handle. Nothing is rolled back: when the checks before
  the loop pass and a prefix of the rows is processed without error, the failing call
  ends in the state reached by going on from the state after that prefix, and every
  entry of that state is still there with its handle.
\<close>

theorem C7_error_behaviour:
  assumes "SetMetrics L r recs = (Inl e, r1)"
  shows "Worker_SetMetrics L r recs = r1
       \<and> published r1 = published r
       \<and> (\<forall>k g. map_of (Result r) k = Some g \<longrightarrow>
             (\<exists>g1. map_of (Result r1) k = Some g1 \<and> handle g1 = handle g))
       \<and> (recs = pre @ rest
            \<and> \<not> (length recs > 1 \<and> length (hd recs) = 1)
            \<and> \<not> (DataField (Query r) \<noteq> [] \<and> length (SubMetrics (Query r)) > 0)
            \<and> rows_loop L (submetrics_of (Query r)) pre [] r = (Inr fwr, r') \<longrightarrow>
              r1 = snd (rows_loop L (submetrics_of (Query r)) rest fwr r')
            \<and> (\<forall>k g. map_of (Result r') k = Some g \<longrightarrow>
                  (\<exists>g1. map_of (Result r1) k = Some g1 \<and> handle g1 = handle g)))"
proof -
  have a: "Worker_SetMetrics L r recs = r1"
    using assms by (simp add: Worker_SetMetrics_def)
  have k: "keeps r r1" using SetMetrics_keeps[of r L recs] assms by simp
  have b: "published r1 = published r" using k by (simp add: keeps_def)
  have c: "\<forall>k g. map_of (Result r) k = Some g \<longrightarrow>
             (\<exists>g1. map_of (Result r1) k = Some g1 \<and> handle g1 = handle g)"
    using keeps_handle[OF k] by blast
  have d: "r1 = snd (rows_loop L (submetrics_of (Query r)) rest fwr r')
            \<and> (\<forall>k g. map_of (Result r') k = Some g \<longrightarrow>
                  (\<exists>g1. map_of (Result r1) k = Some g1 \<and> handle g1 = handle g))"
    if h: "recs = pre @ rest" "\<not> (length recs > 1 \<and> length (hd recs) = 1)"
      "\<not> (DataField (Query r) \<noteq> [] \<and> length (SubMetrics (Query r)) > 0)"
      "rows_loop L (submetrics_of (Query r)) pre [] r = (Inr fwr, r')"
  proof -
    have "SetMetrics L r recs = rows_loop L (submetrics_of (Query r)) (pre @ rest) [] r"
      using h(1,2,3) by (auto simp: SetMetrics_def)
    also have "\<dots> = rows_loop L (submetrics_of (Query r)) rest fwr r'"
      by (simp add: rows_loop_append h(4))
    finally have e: "r1 = snd (rows_loop L (submetrics_of (Query r)) rest fwr r')"
      using assms by (metis snd_conv)
    have "keeps r' r1" unfolding e by (rule rows_loop_keeps)
    then show ?thesis using e keeps_handle by blast
  qed
  from a b c d show ?thesis by blast
qed

theorem C7_error_behaviour_witness:
  "SetMetrics go_lib
     \<lparr>Query = host_query, Result = [(host_key ''a'', host_gauge 0 ''a'' 1)], published = [0], fresh = 1\<rparr>
     [host_row ''a'' (VInt 5), host_row ''b'' (VString ''abc'')]
   = (Inl (ErrParseFloat ''abc''),
      \<lparr>Query = host_query,
       Result = [(host_key ''a'', host_gauge 0 ''a'' 5), (host_key ''b'', host_gauge 1 ''b'' 0)],
       published = [0], fresh = 2\<rparr>)
   \<and> Worker_SetMetrics go_lib
     \<lparr>Query = host_query, Result = [(host_key ''a'', host_gauge 0 ''a'' 1)], published = [0], fresh = 1\<rparr>
     [host_row ''a'' (VInt 5), host_row ''b'' (VString ''abc'')]
   = \<lparr>Query = host_query,
       Result = [(host_key ''a'', host_gauge 0 ''a'' 5), (host_key ''b'', host_gauge 1 ''b'' 0)],
       published = [0], fresh = 2\<rparr>
   \<and> rows_loop go_lib (submetrics_of host_query) [host_row ''a'' (VInt 5)] []
     \<lparr>Query = host_query, Result = [(host_key ''a'', host_gauge 0 ''a'' 1)], published = [0], fresh = 1\<rparr>
   = (Inr [(host_key ''a'', registered)],
      \<lparr>Query = host_query, Result = [(host_key ''a'', host_gauge 0 ''a'' 5)], published = [0], fresh = 1\<rparr>)
   \<and> (\<exists>g1. map_of [(host_key ''a'', host_gauge 0 ''a'' 5), (host_key ''b'', host_gauge 1 ''b'' (0::rat))]
               (host_key ''a'') = Some g1 \<and> handle g1 = 0)"
proof -
  let ?r = "\<lparr>Query = host_query, Result = [(host_key ''a'', host_gauge 0 ''a'' 1)], published = [0], fresh = 1\<rparr>"
  let ?r' = "\<lparr>Query = host_query, Result = [(host_key ''a'', host_gauge 0 ''a'' 5)], published = [0], fresh = 1\<rparr>"
  let ?r1 = "\<lparr>Query = host_query,
       Result = [(host_key ''a'', host_gauge 0 ''a'' 5), (host_key ''b'', host_gauge 1 ''b'' 0)],
       published = [0], fresh = 2\<rparr>"
  let ?recs = "[host_row ''a'' (VInt 5), host_row ''b'' (VString ''abc'')] :: rat records"
  have sm: "submetrics_of host_query = [([], ''v'')]"
    by (simp add: submetrics_of_def host_query_def)
  have h1: "?recs = [host_row ''a'' (VInt 5)] @ [host_row ''b'' (VString ''abc'')]" by simp
  have h2: "\<not> (length ?recs > 1 \<and> length (hd ?recs) = 1)" by (simp add: host_row_def)
  have h3: "\<not> (DataField (Query ?r) \<noteq> [] \<and> length (SubMetrics (Query ?r)) > 0)"
    by (simp add: host_query_def)
  have h4: "rows_loop go_lib (submetrics_of (Query ?r)) [host_row ''a'' (VInt 5)] [] ?r
              = (Inr [(host_key ''a'', registered)], ?r')"
    using failing_round_prefix by (simp add: sm)
  have h5: "map_of (Result ?r') (host_key ''a'') = Some (host_gauge 0 ''a'' 5)" by simp
  note T = C7_error_behaviour[OF failing_round, of "[host_row ''a'' (VInt 5)]"
      "[host_row ''b'' (VString ''abc'')]" "[(host_key ''a'', registered)]" ?r']
  from T have c1: "Worker_SetMetrics go_lib ?r ?recs = ?r1" by blast
  from T h1 h2 h3 h4 h5
  have c2: "\<exists>g1. map_of (Result ?r1) (host_key ''a'') = Some g1 \<and> handle g1 = handle (host_gauge 0 ''a'' (5::rat))"
    by blast
  then have c3: "\<exists>g1. map_of [(host_key ''a'', host_gauge 0 ''a'' 5), (host_key ''b'', host_gauge 1 ''b'' (0::rat))]
               (host_key ''a'') = Some g1 \<and> handle g1 = 0"
    by (simp add: host_gauge_def)
  from failing_round c1 h4 c3 show ?thesis by (simp add: sm)
qed

section \<open>A successful run as a sequence of writes\<close>

lemma submetrics_loop_write:
  assumes "pair_outcome L sm row df = Inr (facet, f)"
  shows "submetrics_loop L sm row ((suffix, df) # rest) fwr r =
           (case write_op L (suffix, facet, f) (fwr, r) of
              (fwr1, r1) \<Rightarrow> submetrics_loop L sm row rest fwr1 r1)"
  unfolding submetrics_loop_step assms
  by (cases "map_of (Result r) (resultKey L (Query r) facet suffix)")
     (simp_all add: write_op_def registerMetric_def Let_def update_conv')

lemma submetrics_loop_success:
  assumes "\<forall>sd \<in> set sds. \<not> isl (pair_outcome L sm row (snd sd))"
  shows "submetrics_loop L sm row sds fwr r =
           (case fold (write_op L) (row_writes L sm row sds) (fwr, r) of
              (fwr1, r1) \<Rightarrow> (Inr fwr1, r1))"
  using assms
proof (induction sds arbitrary: fwr r)
  case Nil
  then show ?case by (simp add: row_writes_def)
next
  case (Cons sd sds)
  obtain suffix df where sd: "sd = (suffix, df)" by (cases sd)
  from Cons.prems obtain facet f where po: "pair_outcome L sm row df = Inr (facet, f)"
    by (cases "pair_outcome L sm row df") (auto simp: sd)
  obtain fwr1 r1 where w: "write_op L (suffix, facet, f) (fwr, r) = (fwr1, r1)"
    by (metis prod.exhaust)
  have rw: "row_writes L sm row (sd # sds) = (suffix, facet, f) # row_writes L sm row sds"
    by (simp add: row_writes_def sd po)
  have "submetrics_loop L sm row (sd # sds) fwr r = submetrics_loop L sm row sds fwr1 r1"
    unfolding sd submetrics_loop_write[OF po] w by simp
  also have "\<dots> = (case fold (write_op L) (row_writes L sm row sds) (fwr1, r1) of
              (fwr2, r2) \<Rightarrow> (Inr fwr2, r2))"
    using Cons.prems by (intro Cons.IH) simp
  finally show ?case by (simp add: rw w)
qed

lemma rows_loop_success:
  assumes "\<forall>row \<in> set recs. \<forall>sd \<in> set sm. \<not> isl (pair_outcome L sm row (snd sd))"
  shows "rows_loop L sm recs fwr r =
           (case fold (write_op L) (writes L sm recs) (fwr, r) of
              (fwr1, r1) \<Rightarrow> (Inr fwr1, r1))"
  using assms
proof (induction recs arbitrary: fwr r)
  case Nil
  then show ?case by (simp add: writes_def)
next
  case (Cons row recs)
  obtain fwr1 r1 where w: "fold (write_op L) (row_writes L sm row sm) (fwr, r) = (fwr1, r1)"
    by (metis prod.exhaust)
  have s: "submetrics_loop L sm row sm fwr r = (Inr fwr1, r1)"
    using Cons.prems by (simp add: submetrics_loop_success w)
  have "rows_loop L sm (row # recs) fwr r = rows_loop L sm recs fwr1 r1"
    by (simp add: s)
  also have "\<dots> = (case fold (write_op L) (writes L sm recs) (fwr1, r1) of
              (fwr2, r2) \<Rightarrow> (Inr fwr2, r2))"
    using Cons.prems by (intro Cons.IH) simp
  finally show ?case by (simp add: writes_def w)
qed

lemma SetMetrics_success:
  assumes "SetMetrics L r recs = (Inr fwr, r1)"
  shows "fold (write_op L) (writes L (submetrics_of (Query r)) recs) ([], r) = (fwr, r1)"
proof -
  have n: "\<not> isl (fst (SetMetrics L r recs))" using assms by simp
  then have a: "\<forall>row \<in> set recs. \<forall>sd \<in> set (submetrics_of (Query r)).
             \<not> isl (pair_outcome L (submetrics_of (Query r)) row (snd sd))"
    unfolding SetMetrics_isl by blast
  from n have "SetMetrics L r recs = rows_loop L (submetrics_of (Query r)) recs [] r"
    unfolding SetMetrics_isl by (auto simp: SetMetrics_def)
  with assms rows_loop_success[OF a, of "[]" r] show ?thesis
    by (auto split: prod.splits)
qed

lemma write_op_Some:
  assumes "map_of (Result r) (wkey L (Query r) w) = Some g"
  shows "write_op L w (fwr, r) =
           (AList.update (wkey L (Query r) w) registered fwr,
            r\<lparr>Result := AList.update (wkey L (Query r) w) (g\<lparr>gvalue := snd (snd w)\<rparr>) (Result r)\<rparr>)"
  using assms by (cases w) (simp add: write_op_def wkey_def Let_def)

lemma write_op_None:
  assumes "map_of (Result r) (wkey L (Query r) w) = None"
  shows "write_op L w (fwr, r) =
           (AList.update (wkey L (Query r) w) unregistered fwr,
            r\<lparr>fresh := Suc (fresh r),
              Result := AList.update (wkey L (Query r) w)
                 ((NewGauge (fresh r) (metricName (Query r) (fst w)) (mkLabels L (fst (snd w)) []))
                     \<lparr>gvalue := snd (snd w)\<rparr>) (Result r)\<rparr>)"
  using assms by (cases w) (simp add: write_op_def wkey_def Let_def)

lemma write_op_Query: "Query (snd (write_op L w (fwr, r))) = Query r"
  by (cases "map_of (Result r) (wkey L (Query r) w)") (simp_all add: write_op_Some write_op_None)

lemma write_op_published: "published (snd (write_op L w (fwr, r))) = published r"
  by (cases "map_of (Result r) (wkey L (Query r) w)") (simp_all add: write_op_Some write_op_None)

lemma write_op_fwr:
  "map_of (fst (write_op L w (fwr, r))) =
     (map_of fwr)(wkey L (Query r) w \<mapsto>
        (if map_of (Result r) (wkey L (Query r) w) = None then unregistered else registered))"
  by (cases "map_of (Result r) (wkey L (Query r) w)")
     (simp_all add: write_op_Some write_op_None update_conv')

lemma write_op_dom:
  "dom (map_of (Result (snd (write_op L w (fwr, r))))) =
     insert (wkey L (Query r) w) (dom (map_of (Result r)))"
  by (cases "map_of (Result r) (wkey L (Query r) w)")
     (simp_all add: write_op_Some write_op_None update_conv')

lemma write_op_value:
  "map_option gvalue (map_of (Result (snd (write_op L w (fwr, r)))) k) =
     (if k = wkey L (Query r) w then Some (snd (snd w))
      else map_option gvalue (map_of (Result r) k))"
  by (cases "map_of (Result r) (wkey L (Query r) w)")
     (simp_all add: write_op_Some write_op_None update_conv')

lemma update_present_keys:
  "map_of xs k = Some v \<Longrightarrow> map fst (AList.update k v' xs) = map fst xs"
  by (induction xs) (auto split: if_splits)

lemma set_update_subset:
  "set (AList.update k v xs) \<subseteq> insert (k, v) (set xs)"
  by (induction xs) auto

lemma update_absent:
  "map_of xs k = None \<Longrightarrow> AList.update k v xs = xs @ [(k, v)]"
  by (induction xs) (auto split: if_splits)

lemma update_present_handles:
  "map_of xs k = Some g \<Longrightarrow> handle g' = handle g \<Longrightarrow> distinct (map fst xs) \<Longrightarrow>
     map (\<lambda>kg. handle (snd kg)) (AList.update k g' xs) = map (\<lambda>kg. handle (snd kg)) xs"
proof (induction xs)
  case Nil
  then show ?case by simp
next
  case (Cons a xs)
  then show ?case by (cases a) (auto split: if_splits simp: map_of_eq_None_iff image_iff)
qed

lemma write_op_well_formed:
  assumes "well_formed r"
  shows "well_formed (snd (write_op L w (fwr, r)))"
proof (cases "map_of (Result r) (wkey L (Query r) w)")
  case None
  then have "wkey L (Query r) w \<notin> fst ` set (Result r)" by (simp add: map_of_eq_None_iff)
  with assms None show ?thesis
    by (auto simp: write_op_None well_formed_def update_absent NewGauge_def less_Suc_eq)
next
  case (Some g)
  let ?g' = "g\<lparr>gvalue := snd (snd w)\<rparr>"
  have h: "handle ?g' = handle g" by simp
  have d: "distinct (map fst (Result r))" using assms by (simp add: well_formed_def)
  have s: "set (AList.update (wkey L (Query r) w) ?g' (Result r)) \<subseteq> insert (wkey L (Query r) w, ?g') (set (Result r))"
    by (rule set_update_subset)
  have m: "(wkey L (Query r) w, g) \<in> set (Result r)" using Some by (rule map_of_SomeD)
  have "\<forall>kg \<in> set (AList.update (wkey L (Query r) w) ?g' (Result r)). handle (snd kg) < fresh r"
    using s m assms unfolding well_formed_def by fastforce
  with assms Some show ?thesis
    by (simp add: write_op_Some well_formed_def update_present_keys update_present_handles[OF Some h d]
        distinct_update)
qed

lemma fold_write_Cons:
  "fold (write_op L) (w # ws) (fwr, r) =
     fold (write_op L) ws (fst (write_op L w (fwr, r)), snd (write_op L w (fwr, r)))"
  by simp

lemma fold_write_Query: "Query (snd (fold (write_op L) ws (fwr, r))) = Query r"
proof (induction ws arbitrary: fwr r)
  case Nil
  then show ?case by simp
next
  case (Cons w ws)
  show ?case unfolding fold_write_Cons Cons.IH by (rule write_op_Query)
qed

lemma fold_write_published: "published (snd (fold (write_op L) ws (fwr, r))) = published r"
proof (induction ws arbitrary: fwr r)
  case Nil
  then show ?case by simp
next
  case (Cons w ws)
  show ?case unfolding fold_write_Cons Cons.IH by (rule write_op_published)
qed

lemma fold_write_well_formed: "well_formed r \<Longrightarrow> well_formed (snd (fold (write_op L) ws (fwr, r)))"
proof (induction ws arbitrary: fwr r)
  case Nil
  then show ?case by simp
next
  case (Cons w ws)
  show ?case unfolding fold_write_Cons
    by (rule Cons.IH) (rule write_op_well_formed[OF Cons.prems])
qed

lemma fold_write_fwr_dom:
  "dom (map_of (fst (fold (write_op L) ws (fwr, r)))) = dom (map_of fwr) \<union> wkey L (Query r) ` set ws"
proof (induction ws arbitrary: fwr r)
  case Nil
  then show ?case by simp
next
  case (Cons w ws)
  show ?case unfolding fold_write_Cons Cons.IH write_op_Query
    by (simp add: write_op_fwr)
qed

lemma fold_write_dom:
  "dom (map_of (Result (snd (fold (write_op L) ws (fwr, r))))) =
     dom (map_of (Result r)) \<union> wkey L (Query r) ` set ws"
proof (induction ws arbitrary: fwr r)
  case Nil
  then show ?case by simp
next
  case (Cons w ws)
  show ?case unfolding fold_write_Cons Cons.IH write_op_Query write_op_dom
    by simp
qed

lemma fold_write_value:
  "map_option gvalue (map_of (Result (snd (fold (write_op L) ws (fwr, r)))) k) =
     (case last_value L (Query r) ws k of
        Some f \<Rightarrow> Some f
      | None \<Rightarrow> map_option gvalue (map_of (Result r) k))"
proof (induction ws arbitrary: fwr r)
  case Nil
  then show ?case by (simp add: last_value_def)
next
  case (Cons w ws)
  have lv: "last_value L (Query r) (w # ws) k =
      (case last_value L (Query r) ws k of Some f \<Rightarrow> Some f
       | None \<Rightarrow> if k = wkey L (Query r) w then Some (snd (snd w)) else None)"
    by (simp add: last_value_def map_add_def split: option.splits)
  show ?case unfolding fold_write_Cons Cons.IH write_op_Query write_op_value lv
    by (simp split: option.splits)
qed

lemma fold_write_present:
  assumes "wkey L (Query r) ` set ws \<subseteq> dom (map_of (Result r))"
  shows "fresh (snd (fold (write_op L) ws (fwr, r))) = fresh r
       \<and> map fst (Result (snd (fold (write_op L) ws (fwr, r)))) = map fst (Result r)
       \<and> (\<forall>k \<in> wkey L (Query r) ` set ws.
             map_of (fst (fold (write_op L) ws (fwr, r))) k = Some registered)
       \<and> (\<forall>k. k \<notin> wkey L (Query r) ` set ws \<longrightarrow>
             map_of (fst (fold (write_op L) ws (fwr, r))) k = map_of fwr k)"
  using assms
proof (induction ws arbitrary: fwr r)
  case Nil
  then show ?case by simp
next
  case (Cons w ws)
  from Cons.prems obtain g where g: "map_of (Result r) (wkey L (Query r) w) = Some g" by auto
  let ?fwr1 = "AList.update (wkey L (Query r) w) registered fwr"
  let ?r1 = "r\<lparr>Result := AList.update (wkey L (Query r) w) (g\<lparr>gvalue := snd (snd w)\<rparr>) (Result r)\<rparr>"
  have w: "write_op L w (fwr, r) = (?fwr1, ?r1)" by (rule write_op_Some[OF g])
  have q: "Query ?r1 = Query r" by simp
  have sub: "wkey L (Query ?r1) ` set ws \<subseteq> dom (map_of (Result ?r1))"
    using Cons.prems by (auto simp: update_conv')
  note IH = Cons.IH[OF sub, of ?fwr1, unfolded q]
  have f: "fold (write_op L) (w # ws) (fwr, r) = fold (write_op L) ws (?fwr1, ?r1)"
    by (simp add: w)
  have k1: "map fst (Result ?r1) = map fst (Result r)"
    by (simp add: update_present_keys[OF g])
  let ?F = "fold (write_op L) ws (?fwr1, ?r1)"
  from IH have a: "fresh (snd ?F) = fresh r" by simp
  from IH k1 have b: "map fst (Result (snd ?F)) = map fst (Result r)" by simp
  from IH have c: "\<forall>k \<in> wkey L (Query r) ` set ws. map_of (fst ?F) k = Some registered"
    by blast
  from IH have d: "\<forall>k. k \<notin> wkey L (Query r) ` set ws \<longrightarrow> map_of (fst ?F) k = map_of ?fwr1 k"
    by blast
  have e: "map_of (fst ?F) (wkey L (Query r) w) = Some registered"
  proof (cases "wkey L (Query r) w \<in> wkey L (Query r) ` set ws")
    case True
    with c show ?thesis by blast
  next
    case False
    with d have "map_of (fst ?F) (wkey L (Query r) w) = map_of ?fwr1 (wkey L (Query r) w)" by blast
    then show ?thesis by (simp add: update_conv')
  qed
  have g': "\<forall>k. k \<notin> wkey L (Query r) ` set (w # ws) \<longrightarrow> map_of (fst ?F) k = map_of fwr k"
    using d by (auto simp: update_conv')
  show ?case unfolding f using a b c e g' by auto
qed

section \<open>RegisterMetrics\<close>

lemma register_loop_eq:
  "register_loop fwr es d r =
     (rev (map (\<lambda>kg. handle (snd kg)) (newly fwr es)) @ d,
      r\<lparr>Result := filter (\<lambda>kg. fst kg \<notin> fst ` set (evicted fwr es)) (Result r),
        published := filter (\<lambda>h. h \<notin> (\<lambda>kg. handle (snd kg)) ` set (evicted fwr es)) (published r)\<rparr>)"
proof (induction es arbitrary: d r)
  case Nil
  then show ?case by (simp add: evicted_def newly_def)
next
  case (Cons a es)
  obtain key m where a: "a = (key, m)" by (cases a)
  show ?case
  proof (cases "map_of fwr key")
    case None
    have e: "evicted fwr (a # es) = a # evicted fwr es" "newly fwr (a # es) = newly fwr es"
      using None by (simp_all add: evicted_def newly_def a)
    have f1: "filter (\<lambda>kg. fst kg \<notin> fst ` set (evicted fwr es)) (AList.delete key (Result r))
          = filter (\<lambda>kg. fst kg \<notin> fst ` set (a # evicted fwr es)) (Result r)"
      unfolding AList.delete_eq filter_filter by (rule filter_cong) (auto simp: a)
    have f2: "filter (\<lambda>h. h \<notin> (\<lambda>kg. handle (snd kg)) ` set (evicted fwr es)) (removeAll (handle m) (published r))
          = filter (\<lambda>h. h \<notin> (\<lambda>kg. handle (snd kg)) ` set (a # evicted fwr es)) (published r)"
      unfolding removeAll_filter_not_eq filter_filter by (rule filter_cong) (auto simp: a)
    show ?thesis
      unfolding a register_loop.simps None option.case Cons.IH e[unfolded a] 
      using f1 f2 by (simp add: a)
  next
    case (Some st)
    have e: "evicted fwr (a # es) = evicted fwr es"
      "newly fwr (a # es) = (if st = unregistered then a # newly fwr es else newly fwr es)"
      using Some by (simp_all add: evicted_def newly_def a)
    show ?thesis
      unfolding a register_loop.simps Some option.case Cons.IH e[unfolded a]
      by simp
  qed
qed

lemma run_deferred_eq: "run_deferred ds r = r\<lparr>published := rev ds @ published r\<rparr>"
  by (induction ds arbitrary: r) simp_all

lemma RegisterMetrics_eq:
  "RegisterMetrics r fwr =
     r\<lparr>Result := filter (\<lambda>kg. fst kg \<notin> fst ` set (evicted fwr (Result r))) (Result r),
       published := map (\<lambda>kg. handle (snd kg)) (newly fwr (Result r))
          @ filter (\<lambda>h. h \<notin> (\<lambda>kg. handle (snd kg)) ` set (evicted fwr (Result r))) (published r)\<rparr>"
  by (simp add: RegisterMetrics_def register_loop_eq run_deferred_eq)

lemma RegisterMetrics_Result:
  "Result (RegisterMetrics r fwr) = filter (\<lambda>kg. map_of fwr (fst kg) \<noteq> None) (Result r)"
  unfolding RegisterMetrics_eq
  by (simp add: evicted_def) (rule filter_cong, auto simp: image_iff)

lemma map_of_filter_key:
  "map_of (filter (\<lambda>kg. P (fst kg)) xs) k = (if P k then map_of xs k else None)"
  by (induction xs) auto

lemma RegisterMetrics_map_of:
  "map_of (Result (RegisterMetrics r fwr)) k = (if map_of fwr k = None then None else map_of (Result r) k)"
  unfolding RegisterMetrics_Result
  using map_of_filter_key[of "\<lambda>k. map_of fwr k \<noteq> None" "Result r" k] by simp

lemma pair_outcome_Inr:
  "pair_outcome L sm row df = Inr (facet, f) \<Longrightarrow> facet = facet_of L sm df row"
  by (auto simp: pair_outcome_def split: list.splits sum.splits)

lemma row_writes_keys:
  assumes "\<forall>sd \<in> set sds. \<not> isl (pair_outcome L sm row (snd sd))"
  shows "wkey L q ` set (row_writes L sm row sds) =
           (\<lambda>sd. resultKey L q (facet_of L sm (snd sd) row) (fst sd)) ` set sds"
  using assms
proof (induction sds)
  case Nil
  then show ?case by (simp add: row_writes_def)
next
  case (Cons sd sds)
  from Cons.prems obtain facet f where po: "pair_outcome L sm row (snd sd) = Inr (facet, f)"
    by (cases "pair_outcome L sm row (snd sd)") auto
  have rw: "row_writes L sm row (sd # sds) = (fst sd, facet, f) # row_writes L sm row sds"
    by (simp add: row_writes_def po)
  have "wkey L q (fst sd, facet, f) = resultKey L q (facet_of L sm (snd sd) row) (fst sd)"
    using pair_outcome_Inr[OF po] by (simp add: wkey_def)
  with Cons show ?case by (simp add: rw)
qed

lemma writes_keys:
  assumes "\<forall>row \<in> set recs. \<forall>sd \<in> set (submetrics_of q).
             \<not> isl (pair_outcome L (submetrics_of q) row (snd sd))"
  shows "wkey L q ` set (writes L (submetrics_of q) recs) = produced_keys L q recs"
  using assms
proof (induction recs)
  case Nil
  then show ?case by (simp add: writes_def produced_keys_def)
next
  case (Cons row recs)
  have w: "writes L (submetrics_of q) (row # recs) =
      row_writes L (submetrics_of q) row (submetrics_of q) @ writes L (submetrics_of q) recs"
    by (simp add: writes_def)
  have p: "produced_keys L q (row # recs) =
      (\<lambda>sd. resultKey L q (facet_of L (submetrics_of q) (snd sd) row) (fst sd)) ` set (submetrics_of q)
      \<union> produced_keys L q recs"
    by (auto simp: produced_keys_def)
  have r: "wkey L q ` set (row_writes L (submetrics_of q) row (submetrics_of q)) =
      (\<lambda>sd. resultKey L q (facet_of L (submetrics_of q) (snd sd) row) (fst sd)) ` set (submetrics_of q)"
    using Cons.prems by (intro row_writes_keys) simp
  have i: "wkey L q ` set (writes L (submetrics_of q) recs) = produced_keys L q recs"
    using Cons.prems by (intro Cons.IH) simp
  show ?case unfolding w p by (simp add: image_Un r i)
qed

lemma SetMetrics_success_facts:
  assumes "SetMetrics L r recs = (Inr fwr, r1)"
  shows "dom (map_of fwr) = produced_keys L (Query r) recs"
    and "dom (map_of (Result r1)) = dom (map_of (Result r)) \<union> produced_keys L (Query r) recs"
    and "Query r1 = Query r" and "published r1 = published r"
    and "well_formed r \<Longrightarrow> well_formed r1"
proof -
  let ?ws = "writes L (submetrics_of (Query r)) recs"
  have f: "fold (write_op L) ?ws ([], r) = (fwr, r1)" by (rule SetMetrics_success[OF assms])
  have n: "\<not> isl (fst (SetMetrics L r recs))" using assms by simp
  then have a: "\<forall>row \<in> set recs. \<forall>sd \<in> set (submetrics_of (Query r)).
             \<not> isl (pair_outcome L (submetrics_of (Query r)) row (snd sd))"
    unfolding SetMetrics_isl by blast
  note k = writes_keys[OF a]
  show "dom (map_of fwr) = produced_keys L (Query r) recs"
    using fold_write_fwr_dom[of L ?ws "[]" r] by (simp add: f k)
  show "dom (map_of (Result r1)) = dom (map_of (Result r)) \<union> produced_keys L (Query r) recs"
    using fold_write_dom[of L ?ws "[]" r] by (simp add: f k)
  show "Query r1 = Query r" using fold_write_Query[of L ?ws "[]" r] by (simp add: f)
  show "published r1 = published r" using fold_write_published[of L ?ws "[]" r] by (simp add: f)
  show "well_formed r1" if "well_formed r" using fold_write_well_formed[OF that, of L ?ws "[]"] by (simp add: f)
qed

lemma registerMetric_existing:
  "map_of (Result r) (resultKey L (Query r) facets suffix) \<noteq> None \<Longrightarrow>
     registerMetric L r facets suffix = ((resultKey L (Query r) facets suffix, registered), r)"
  by (auto simp: registerMetric_def Let_def)

lemma RegisterMetrics_published:
  "set (published (RegisterMetrics r fwr)) =
     (\<lambda>kg. handle (snd kg)) ` set (newly fwr (Result r))
     \<union> (set (published r) - (\<lambda>kg. handle (snd kg)) ` set (evicted fwr (Result r)))"
  unfolding RegisterMetrics_eq by auto

lemma RegisterMetrics_Query: "Query (RegisterMetrics r fwr) = Query r"
  unfolding RegisterMetrics_eq by simp

lemma well_formed_handle_inj:
  assumes "well_formed r" and "(k, g) \<in> set (Result r)" and "(k', g') \<in> set (Result r)"
    and "handle g = handle g'"
  shows "k = k'"
proof -
  from assms(1) have d: "distinct (map (\<lambda>kg. handle (snd kg)) (Result r))" by (simp add: well_formed_def)
  then have "inj_on (\<lambda>kg. handle (snd kg)) (set (Result r))" by (simp add: distinct_map)
  from inj_onD[OF this, of "(k, g)" "(k', g')"] assms(2,3,4) show ?thesis by simp
qed

lemma RegisterMetrics_evicted_unpublished:
  assumes "well_formed r" and "map_of (Result r) k = Some g" and "map_of fwr k = None"
  shows "handle g \<notin> set (published (RegisterMetrics r fwr))"
proof -
  have m: "(k, g) \<in> set (Result r)" using assms(2) by (rule map_of_SomeD)
  then have e: "(k, g) \<in> set (evicted fwr (Result r))" using assms(3) by (simp add: evicted_def)
  have "handle g \<notin> (\<lambda>kg. handle (snd kg)) ` set (newly fwr (Result r))"
  proof
    assume "handle g \<in> (\<lambda>kg. handle (snd kg)) ` set (newly fwr (Result r))"
    then obtain k' g' where n: "(k', g') \<in> set (Result r)" "map_of fwr k' = Some unregistered"
        "handle g = handle g'"
      by (auto simp: newly_def)
    from well_formed_handle_inj[OF assms(1) m n(1) n(3)] n(2) assms(3) show False by simp
  qed
  moreover have "handle g \<in> (\<lambda>kg. handle (snd kg)) ` set (evicted fwr (Result r))"
    using e by force
  ultimately show ?thesis unfolding RegisterMetrics_published by blast
qed

lemma RegisterMetrics_new_published:
  assumes "map_of (Result r) k = Some g" and "map_of fwr k = Some unregistered"
  shows "handle g \<in> set (published (RegisterMetrics r fwr))"
proof -
  have "(k, g) \<in> set (Result r)" using assms(1) by (rule map_of_SomeD)
  then have "(k, g) \<in> set (newly fwr (Result r))" using assms(2) by (simp add: newly_def)
  then show ?thesis unfolding RegisterMetrics_published by force
qed

lemma RegisterMetrics_old_published:
  assumes "well_formed r" and "map_of (Result r) k = Some g" and "map_of fwr k = Some registered"
  shows "handle g \<in> set (published (RegisterMetrics r fwr)) \<longleftrightarrow> handle g \<in> set (published r)"
proof -
  have m: "(k, g) \<in> set (Result r)" using assms(2) by (rule map_of_SomeD)
  have a: "handle g \<notin> (\<lambda>kg. handle (snd kg)) ` set (newly fwr (Result r))"
  proof
    assume "handle g \<in> (\<lambda>kg. handle (snd kg)) ` set (newly fwr (Result r))"
    then obtain k' g' where n: "(k', g') \<in> set (Result r)" "map_of fwr k' = Some unregistered"
        "handle g = handle g'"
      by (auto simp: newly_def)
    from well_formed_handle_inj[OF assms(1) m n(1) n(3)] n(2) assms(3) show False by simp
  qed
  have b: "handle g \<notin> (\<lambda>kg. handle (snd kg)) ` set (evicted fwr (Result r))"
  proof
    assume "handle g \<in> (\<lambda>kg. handle (snd kg)) ` set (evicted fwr (Result r))"
    then obtain k' g' where n: "(k', g') \<in> set (Result r)" "map_of fwr k' = None"
        "handle g = handle g'"
      by (auto simp: evicted_def)
    from well_formed_handle_inj[OF assms(1) m n(1) n(3)] n(2) assms(3) show False by simp
  qed
  show ?thesis unfolding RegisterMetrics_published using a b by blast
qed

lemma RegisterMetrics_well_formed: "well_formed r \<Longrightarrow> well_formed (RegisterMetrics r fwr)"
  unfolding well_formed_def RegisterMetrics_eq
  by (auto simp: distinct_map_filter)

lemma well_formed_New: "well_formed (NewQueryResult q)"
  by (simp add: well_formed_def NewQueryResult_def)

section \<open>Reconciliation\<close>

lemma round_AB:
  "SetMetrics go_lib (NewQueryResult host_query) [host_row ''a'' (VInt 1), host_row ''b'' (VInt 2)]
   = (Inr [(host_key ''a'', unregistered), (host_key ''b'', unregistered)],
      \<lparr>Query = host_query,
       Result = [(host_key ''a'', host_gauge 0 ''a'' 1), (host_key ''b'', host_gauge 1 ''b'' 2)],
       published = [], fresh = 2\<rparr>)"
  by code_simp

lemma round_AB_registered:
  "Worker_SetMetrics go_lib (NewQueryResult host_query) [host_row ''a'' (VInt 1), host_row ''b'' (VInt 2)]
   = \<lparr>Query = host_query,
       Result = [(host_key ''a'', host_gauge 0 ''a'' 1), (host_key ''b'', host_gauge 1 ''b'' 2)],
       published = [0, 1], fresh = 2\<rparr>"
  by code_simp

lemma round_A:
  "SetMetrics go_lib
      \<lparr>Query = host_query,
       Result = [(host_key ''a'', host_gauge 0 ''a'' 1), (host_key ''b'', host_gauge 1 ''b'' 2)],
       published = [0, 1], fresh = 2\<rparr>
      [host_row ''a'' (VString ''7'')]
   = (Inr [(host_key ''a'', registered)],
      \<lparr>Query = host_query,
       Result = [(host_key ''a'', host_gauge 0 ''a'' 7), (host_key ''b'', host_gauge 1 ''b'' 2)],
       published = [0, 1], fresh = 2\<rparr>)"
  by code_simp

lemma round_A_registered:
  "Worker_SetMetrics go_lib
      \<lparr>Query = host_query,
       Result = [(host_key ''a'', host_gauge 0 ''a'' 1), (host_key ''b'', host_gauge 1 ''b'' 2)],
       published = [0, 1], fresh = 2\<rparr>
      [host_row ''a'' (VString ''7'')]
   = \<lparr>Query = host_query, Result = [(host_key ''a'', host_gauge 0 ''a'' 7)],
       published = [0], fresh = 2\<rparr>"
  by code_simp

lemma host_keys_differ: "host_key ''a'' \<noteq> host_key ''b''"
  by (simp add: host_key_def)

text \<open>
  What \<^verbatim>\<open>RegisterMetrics\<close> does with the statuses \<^verbatim>\<open>SetMetrics\<close> recorded. Let \<^verbatim>\<open>SetMetrics\<close>
  succeed on a registry whose entries have distinct keys and handles. The keys it records
  are exactly the series keys produced from the rows and sub-metrics of the record set.
  After the register pass, every entry the registry held whose key was not produced is
  gone from the registry and its handle is not among the published ones; every entry
  whose key was produced is still there with the gauge \<^verbatim>\<open>SetMetrics\<close> left; and every
  entry whose recorded status is \<^verbatim>\<open>unregistered\<close> has its handle published and from then
  on reports \<^verbatim>\<open>registered\<close>. The recorded status of a key is the one returned by the last
  \<^verbatim>\<open>registerMetric\<close> call for it in the round.
\<close>

lemma reconciliation_by_recorded_status:
  assumes "well_formed r" and "SetMetrics L r recs = (Inr fwr, r1)"
  shows "Worker_SetMetrics L r recs = RegisterMetrics r1 fwr
       \<and> dom (map_of fwr) = produced_keys L (Query r) recs
       \<and> (\<forall>k g. map_of (Result r1) k = Some g \<and> k \<notin> produced_keys L (Query r) recs \<longrightarrow>
             map_of (Result (Worker_SetMetrics L r recs)) k = None
           \<and> handle g \<notin> set (published (Worker_SetMetrics L r recs)))
       \<and> (\<forall>k g. map_of (Result r) k = Some g \<and> k \<notin> produced_keys L (Query r) recs \<longrightarrow>
             map_of (Result (Worker_SetMetrics L r recs)) k = None
           \<and> handle g \<notin> set (published (Worker_SetMetrics L r recs)))
       \<and> (\<forall>k g. map_of (Result r1) k = Some g \<and> k \<in> produced_keys L (Query r) recs \<longrightarrow>
             map_of (Result (Worker_SetMetrics L r recs)) k = Some g)
       \<and> (\<forall>k g. map_of (Result r1) k = Some g \<and> map_of fwr k = Some unregistered \<longrightarrow>
             handle g \<in> set (published (Worker_SetMetrics L r recs))
           \<and> (\<forall>facets suffix. resultKey L (Query r) facets suffix = k \<longrightarrow>
                 registerMetric L (Worker_SetMetrics L r recs) facets suffix
                   = ((k, registered), Worker_SetMetrics L r recs)))"
proof -
  let ?K = "produced_keys L (Query r) recs"
  let ?r' = "Worker_SetMetrics L r recs"
  note F = SetMetrics_success_facts[OF assms(2)]
  have wfr1: "well_formed r1" using F(5) assms(1) .
  have a: "?r' = RegisterMetrics r1 fwr" using assms(2) by (simp add: Worker_SetMetrics_def)
  have q: "Query ?r' = Query r" unfolding a by (simp add: RegisterMetrics_Query F(3))
  have none: "map_of fwr k = None" if "k \<notin> ?K" for k
    using that F(1) by (metis domIff)
  have some: "map_of fwr k \<noteq> None" if "k \<in> ?K" for k
    using that F(1) by (metis domIff)
  have c: "map_of (Result ?r') k = None \<and> handle g \<notin> set (published ?r')"
    if "map_of (Result r1) k = Some g" "k \<notin> ?K" for k g
    unfolding a using RegisterMetrics_evicted_unpublished[OF wfr1 that(1) none[OF that(2)]]
    by (simp add: RegisterMetrics_map_of none[OF that(2)])
  have c': "map_of (Result ?r') k = None \<and> handle g \<notin> set (published ?r')"
    if h: "map_of (Result r) k = Some g" "k \<notin> ?K" for k g
  proof -
    have "keeps r r1" using SetMetrics_keeps[of r L recs] assms(2) by simp
    from keeps_handle[OF this h(1)] obtain g1 where
      "map_of (Result r1) k = Some g1" "handle g1 = handle g" by blast
    with c[of k g1] h(2) show ?thesis by simp
  qed
  have d: "map_of (Result ?r') k = Some g" if "map_of (Result r1) k = Some g" "k \<in> ?K" for k g
    unfolding a using that(1) some[OF that(2)] by (simp add: RegisterMetrics_map_of)
  have e: "handle g \<in> set (published ?r')
           \<and> (\<forall>facets suffix. resultKey L (Query r) facets suffix = k \<longrightarrow>
                 registerMetric L ?r' facets suffix = ((k, registered), ?r'))"
    if h: "map_of (Result r1) k = Some g" "map_of fwr k = Some unregistered" for k g
  proof -
    have p: "handle g \<in> set (published ?r')"
      unfolding a by (rule RegisterMetrics_new_published[OF h])
    have m: "map_of (Result ?r') k = Some g"
      unfolding a using h by (simp add: RegisterMetrics_map_of)
    have "registerMetric L ?r' facets suffix = ((k, registered), ?r')"
      if "resultKey L (Query r) facets suffix = k" for facets suffix
      using registerMetric_existing[of ?r' L facets suffix] m that by (simp add: q)
    with p show ?thesis by blast
  qed
  from a F(1) c c' d e show ?thesis by blast
qed

lemma reconciliation_rounds:
  "well_formed (NewQueryResult host_query :: rat QueryResult)
   \<and> SetMetrics go_lib (NewQueryResult host_query) [host_row ''a'' (VInt 1), host_row ''b'' (VInt 2)]
      = (Inr [(host_key ''a'', unregistered), (host_key ''b'', unregistered)],
         \<lparr>Query = host_query,
          Result = [(host_key ''a'', host_gauge 0 ''a'' 1), (host_key ''b'', host_gauge 1 ''b'' 2)],
          published = [], fresh = 2\<rparr>)
   \<and> handle (host_gauge 1 ''b'' 2) \<in> set (published (Worker_SetMetrics go_lib (NewQueryResult host_query)
          [host_row ''a'' (VInt 1), host_row ''b'' (VInt 2)]))
   \<and> well_formed \<lparr>Query = host_query,
          Result = [(host_key ''a'', host_gauge 0 ''a'' 1), (host_key ''b'', host_gauge 1 ''b'' 2)],
          published = [0, 1], fresh = 2\<rparr>
   \<and> produced_keys go_lib host_query [host_row ''a'' (VString ''7'')] = {host_key ''a''}
   \<and> Worker_SetMetrics go_lib
        \<lparr>Query = host_query,
         Result = [(host_key ''a'', host_gauge 0 ''a'' 1), (host_key ''b'', host_gauge 1 ''b'' 2)],
         published = [0, 1], fresh = 2\<rparr>
        [host_row ''a'' (VString ''7'')]
      = \<lparr>Query = host_query, Result = [(host_key ''a'', host_gauge 0 ''a'' 7)], published = [0], fresh = 2\<rparr>
   \<and> map_of [(host_key ''a'', host_gauge 0 ''a'' (7::rat))] (host_key ''b'') = None
   \<and> map_of [(host_key ''a'', host_gauge 0 ''a'' (7::rat))] (host_key ''a'') = Some (host_gauge 0 ''a'' 7)
   \<and> handle (host_gauge 1 ''b'' (2::rat)) \<notin> set [0]"
proof -
  let ?s1 = "\<lparr>Query = host_query,
       Result = [(host_key ''a'', host_gauge 0 ''a'' 1), (host_key ''b'', host_gauge 1 ''b'' (2::rat))],
       published = [0, 1], fresh = 2\<rparr>"
  let ?r1 = "\<lparr>Query = host_query,
       Result = [(host_key ''a'', host_gauge 0 ''a'' 7), (host_key ''b'', host_gauge 1 ''b'' (2::rat))],
       published = [0, 1], fresh = 2\<rparr>"
  let ?r0 = "\<lparr>Query = host_query,
       Result = [(host_key ''a'', host_gauge 0 ''a'' 1), (host_key ''b'', host_gauge 1 ''b'' (2::rat))],
       published = [], fresh = 2\<rparr>"
  have w0: "well_formed (NewQueryResult host_query :: rat QueryResult)" by (rule well_formed_New)
  have w1: "well_formed ?s1" by (simp add: well_formed_def host_keys_differ host_gauge_def)
  note A = reconciliation_by_recorded_status[OF w0 round_AB]
  note B = reconciliation_by_recorded_status[OF w1 round_A]
  have b0: "map_of (Result ?r0) (host_key ''b'') = Some (host_gauge 1 ''b'' 2)"
    using host_keys_differ by simp
  have b0': "map_of [(host_key ''a'', unregistered), (host_key ''b'', unregistered)] (host_key ''b'') = Some unregistered"
    using host_keys_differ by simp
  from A b0 b0' have c1: "handle (host_gauge 1 ''b'' 2) \<in> set (published (Worker_SetMetrics go_lib (NewQueryResult host_query)
          [host_row ''a'' (VInt 1), host_row ''b'' (VInt 2)]))"
    by blast
  from B have pk: "produced_keys go_lib host_query [host_row ''a'' (VString ''7'')] = {host_key ''a''}"
    by simp
  have b1: "map_of (Result ?r1) (host_key ''b'') = Some (host_gauge 1 ''b'' 2)"
    using host_keys_differ by simp
  have a1: "map_of (Result ?r1) (host_key ''a'') = Some (host_gauge 0 ''a'' 7)" by simp
  have nb: "host_key ''b'' \<notin> produced_keys go_lib (Query ?s1) [host_row ''a'' (VString ''7'')]"
    using pk host_keys_differ by simp
  have na: "host_key ''a'' \<in> produced_keys go_lib (Query ?s1) [host_row ''a'' (VString ''7'')]"
    using pk by simp
  from B b1 nb have c2: "map_of (Result (Worker_SetMetrics go_lib ?s1 [host_row ''a'' (VString ''7'')])) (host_key ''b'') = None
      \<and> handle (host_gauge 1 ''b'' 2) \<notin> set (published (Worker_SetMetrics go_lib ?s1 [host_row ''a'' (VString ''7'')]))"
    by blast
  from B a1 na have c3: "map_of (Result (Worker_SetMetrics go_lib ?s1 [host_row ''a'' (VString ''7'')])) (host_key ''a'')
       = Some (host_gauge 0 ''a'' 7)"
    by blast
  from w0 round_AB c1 w1 pk round_A_registered c2 c3 show ?thesis
    by (simp add: round_A_registered)
qed

text \<open>
  C1. The part of the property on retiring holds as stated (see above), and so does the
  example of the rounds \<open>{a, b}\<close> and \<open>{a}\<close>. The part on publishing fails for an entry
  that is created in the round and whose key the round produces more than once: the
  second \<^verbatim>\<open>registerMetric\<close> call finds the key in \<^verbatim>\<open>Result\<close> and returns \<^verbatim>\<open>registered\<close>,
  which replaces the \<^verbatim>\<open>unregistered\<close> recorded at creation, so \<^verbatim>\<open>RegisterMetrics\<close> never calls
  \<^verbatim>\<open>MustRegister\<close> for it. For a new registry and two rows with the same \<^verbatim>\<open>host\<close>,
  \<^verbatim>\<open>SetMetrics\<close> succeeds and records the key as \<^verbatim>\<open>registered\<close>; after the register pass
  the entry is in the registry with the value of the second row and no handle is
  published; a further round on the same host leaves it unpublished as well.
\<close>

theorem C1_entry_created_twice_in_a_round_is_not_published:
  "SetMetrics go_lib (NewQueryResult host_query) [host_row ''a'' (VFloat64 1), host_row ''a'' (VFloat64 2)]
     = (Inr [(host_key ''a'', registered)],
        \<lparr>Query = host_query, Result = [(host_key ''a'', host_gauge 0 ''a'' 2)], published = [], fresh = 1\<rparr>)
   \<and> Worker_SetMetrics go_lib (NewQueryResult host_query)
        [host_row ''a'' (VFloat64 1), host_row ''a'' (VFloat64 2)]
     = \<lparr>Query = host_query, Result = [(host_key ''a'', host_gauge 0 ''a'' 2)], published = [], fresh = 1\<rparr>
   \<and> Worker_SetMetrics go_lib
        \<lparr>Query = host_query, Result = [(host_key ''a'', host_gauge 0 ''a'' 2)], published = [], fresh = 1\<rparr>
        [host_row ''a'' (VFloat64 3)]
     = \<lparr>Query = host_query, Result = [(host_key ''a'', host_gauge 0 ''a'' 3)], published = [], fresh = 1\<rparr>"
  by code_simp

section \<open>Series keys\<close>


lemma sort_key_same_pairs:
  assumes "distinct (map fst f1)" and "distinct (map fst f2)" and "set f1 = set f2"
  shows "sort_key fst f1 = sort_key fst f2"
proof (rule sort_key_inj_key_eq)
  have d1: "distinct f1" and d2: "distinct f2" using assms(1,2) by (simp_all add: distinct_map)
  have "mset f1 = mset f2" using d1 d2 assms(3) by (simp add: set_eq_iff_mset_eq_distinct)
  then show "mset f1 = mset (sort_key fst f2)" by simp
  show "inj_on fst (set f1)" using assms(1) by (simp add: distinct_map)
  show "sorted (map fst (sort_key fst f2))" by simp
qed

lemma Marshal_same_pairs:
  assumes "distinct (map fst f1)" and "distinct (map fst f2)" and "set f1 = set f2"
  shows "Marshal L f1 = Marshal L f2"
  by (simp add: Marshal_def sort_key_same_pairs[OF assms])






section \<open>Letter case of facet values\<close>

lemma fold_update_fresh_keys:
  assumes "distinct (map (\<lambda>kv. h (fst kv)) cols)"
    and "(\<lambda>kv. h (fst kv)) ` set cols \<inter> fst ` set acc = {}"
  shows "fold (\<lambda>kv f. AList.update (h (fst kv)) (g (snd kv)) f) cols acc
           = acc @ map (\<lambda>kv. (h (fst kv), g (snd kv))) cols"
  using assms
proof (induction cols arbitrary: acc)
  case Nil
  then show ?case by simp
next
  case (Cons kv cols)
  have n: "map_of acc (h (fst kv)) = None" using Cons.prems(2) by (auto simp: map_of_eq_None_iff)
  have u: "AList.update (h (fst kv)) (g (snd kv)) acc = acc @ [(h (fst kv), g (snd kv))]"
    by (rule update_absent[OF n])
  have d: "distinct (map (\<lambda>kv. h (fst kv)) cols)" using Cons.prems(1) by simp
  have i: "(\<lambda>kv. h (fst kv)) ` set cols \<inter> fst ` set (acc @ [(h (fst kv), g (snd kv))]) = {}"
    using Cons.prems by auto
  show ?case by (simp add: u Cons.IH[OF d i])
qed

lemma facet_of_distinct:
  assumes "distinct (map (\<lambda>kv. ToLower L (fst kv)) row)"
  shows "facet_of L sm df row = map (\<lambda>kv. (ToLower L (fst kv), snd kv)) (facet_columns L sm df row)"
proof -
  have d: "distinct (map (\<lambda>kv. ToLower L (fst kv)) (facet_columns L sm df row))"
    unfolding facet_columns_def using assms by (rule distinct_map_filter)
  from fold_update_fresh_keys[of "ToLower L" "facet_columns L sm df row" "[]" "\<lambda>v. v", OF d]
  show ?thesis by (simp add: facet_of_def)
qed














lemma map_of_append_absent: "map_of xs k = None \<Longrightarrow> map_of (xs @ ys) k = map_of ys k"
  by (simp add: map_add_def)






section \<open>Idempotence\<close>

lemma SetMetrics_fold:
  assumes "\<not> isl (fst (SetMetrics L r recs))"
  shows "SetMetrics L r recs =
           (Inr (fst (fold (write_op L) (writes L (submetrics_of (Query r)) recs) ([], r))),
            snd (fold (write_op L) (writes L (submetrics_of (Query r)) recs) ([], r)))"
proof -
  obtain res r1 where s: "SetMetrics L r recs = (res, r1)" by (metis prod.exhaust)
  with assms obtain fwr where "res = Inr fwr" by (cases res) auto
  with s SetMetrics_success[of L r recs fwr r1] show ?thesis by simp
qed

lemma alist_eqI:
  assumes "map fst xs = map fst ys" and "distinct (map fst xs)" and "map_of xs = map_of ys"
  shows "xs = ys"
  using assms
proof (induction xs arbitrary: ys)
  case Nil
  then show ?case by simp
next
  case (Cons x xs)
  from Cons.prems(1) obtain y ys' where ys: "ys = y # ys'" "fst x = fst y" "map fst xs = map fst ys'"
    by (cases ys) auto
  have "map_of (x # xs) (fst x) = map_of ys (fst x)" using fun_cong[OF Cons.prems(3)] .
  then have xy: "x = y" using ys(1,2) by (cases x; cases y) simp
  have "map_of xs k = map_of ys' k" for k
  proof (cases "k = fst x")
    case True
    have "fst x \<notin> fst ` set xs" using Cons.prems(2) by simp
    moreover have "fst x \<notin> fst ` set ys'" using Cons.prems(2) ys(3)
      by (metis distinct.simps(2) list.simps(9) set_map)
    ultimately have "map_of xs (fst x) = None" "map_of ys' (fst x) = None"
      by (simp_all add: map_of_eq_None_iff)
    then show ?thesis using True by simp
  next
    case False
    have "map_of (x # xs) k = map_of (y # ys') k" using fun_cong[OF Cons.prems(3), of k] ys(1) by simp
    with False xy show ?thesis by (cases x) (simp split: if_splits)
  qed
  then have "map_of xs = map_of ys'" by (rule ext)
  with Cons.IH[OF ys(3) _ this] Cons.prems(2) xy ys(1) show ?case by simp
qed

lemma RegisterMetrics_noop:
  assumes "\<forall>kg \<in> set (Result r). map_of fwr (fst kg) = Some registered"
  shows "RegisterMetrics r fwr = r"
proof -
  have e: "evicted fwr (Result r) = []" using assms by (auto simp: evicted_def filter_empty_conv)
  have n: "newly fwr (Result r) = []" using assms by (auto simp: newly_def filter_empty_conv)
  show ?thesis unfolding RegisterMetrics_eq e n by simp
qed

lemma last_value_Some:
  assumes "k \<in> wkey L q ` set ws"
  shows "\<exists>f. last_value L q ws k = Some f"
proof -
  have "k \<in> fst ` set (rev (map (\<lambda>w. (wkey L q w, snd (snd w))) ws))"
    using assms by (auto simp: image_iff)
  then have "map_of (rev (map (\<lambda>w. (wkey L q w, snd (snd w))) ws)) k \<noteq> None"
    by (simp only: map_of_eq_None_iff not_not)
  then show ?thesis unfolding last_value_def by blast
qed

lemma resultKey_Name: "Name q' = Name q \<Longrightarrow> resultKey L q' facet suffix = resultKey L q facet suffix"
  by (simp add: resultKey_def metricName_def)

lemma wkey_Name: "Name q' = Name q \<Longrightarrow> wkey L q' = wkey L q"
  by (rule ext) (simp add: wkey_def resultKey_def metricName_def)

lemma last_value_Name: "Name q' = Name q \<Longrightarrow> last_value L q' ws = last_value L q ws"
  using wkey_Name[of q' q L] by (simp add: last_value_def)

lemma second_round_any_order:
  assumes "well_formed r" and "SetMetrics L r recs = (Inr fwr, r1)"
    and s2: "s2 = (Worker_SetMetrics L r recs)\<lparr>Query := q', published := p\<rparr>"
    and nm: "Name q' = Name (Query r)"
    and n2: "\<not> isl (fst (SetMetrics L s2 recs'))"
    and keys': "wkey L (Query r) ` set (writes L (submetrics_of q') recs')
                  = wkey L (Query r) ` set (writes L (submetrics_of (Query r)) recs)"
    and lv: "last_value L (Query r) (writes L (submetrics_of q') recs')
               = last_value L (Query r) (writes L (submetrics_of (Query r)) recs)"
  shows "(\<exists>fwr2.
            SetMetrics L s2 recs' = (Inr fwr2, s2)
          \<and> dom (map_of fwr2) = produced_keys L (Query r) recs
          \<and> (\<forall>k st. map_of fwr2 k = Some st \<longrightarrow> st = registered))
       \<and> Worker_SetMetrics L s2 recs' = s2"
proof -
  let ?K = "produced_keys L (Query r) recs"
  let ?s = "Worker_SetMetrics L r recs"
  let ?ws = "writes L (submetrics_of (Query r)) recs"
  let ?ws' = "writes L (submetrics_of q') recs'"
  note F = SetMetrics_success_facts[OF assms(2)]
  have f1: "fold (write_op L) ?ws ([], r) = (fwr, r1)" by (rule SetMetrics_success[OF assms(2)])
  have s: "?s = RegisterMetrics r1 fwr" using assms(2) by (simp add: Worker_SetMetrics_def)
  have q: "Query s2 = q'" and rs: "Result s2 = Result ?s" and fs: "fresh s2 = fresh ?s"
    unfolding s2 by simp_all
  have wk: "wkey L q' = wkey L (Query r)" by (rule wkey_Name[OF nm])
  have wfs: "well_formed s2"
    using RegisterMetrics_well_formed[OF F(5)[OF assms(1)], of fwr]
    by (simp add: well_formed_def rs fs s)
  have ms: "map_of (Result s2) k = (if k \<in> ?K then map_of (Result r1) k else None)" for k
    unfolding rs s RegisterMetrics_map_of using F(1) by (auto simp: domIff)
  have inr1: "map_of (Result r1) k \<noteq> None" if "k \<in> ?K" for k
    using F(2) that by (metis UnI2 domIff)
  have doms: "dom (map_of (Result s2)) = ?K"
    using inr1 by (auto simp: ms domIff split: if_splits)
  have n1: "\<not> isl (fst (SetMetrics L r recs))" using assms(2) by simp
  have a: "\<forall>row \<in> set recs. \<forall>sd \<in> set (submetrics_of (Query r)).
             \<not> isl (pair_outcome L (submetrics_of (Query r)) row (snd sd))"
    using n1 unfolding SetMetrics_isl by blast
  have keys: "wkey L (Query r) ` set ?ws = ?K" by (rule writes_keys[OF a])
  have keys2: "wkey L (Query r) ` set ?ws' = ?K" using keys' keys by simp
  let ?F = "fold (write_op L) ?ws' ([], s2)"
  have S2: "SetMetrics L s2 recs' = (Inr (fst ?F), snd ?F)"
    using SetMetrics_fold[OF n2] by (simp add: q)
  have sub: "wkey L (Query s2) ` set ?ws' \<subseteq> dom (map_of (Result s2))"
    by (simp add: q wk keys2 doms)
  note P = fold_write_present[OF sub, of "[]", unfolded q wk keys2]
  have fr: "fresh (snd ?F) = fresh s2" using P by blast
  have mk: "map fst (Result (snd ?F)) = map fst (Result s2)" using P by blast
  have st: "map_of (fst ?F) k = Some registered" if "k \<in> ?K" for k using P that by blast
  have st': "map_of (fst ?F) k = None" if "k \<notin> ?K" for k using P that by simp
  have pq: "published (snd ?F) = published s2" "Query (snd ?F) = Query s2"
    by (simp_all add: fold_write_published fold_write_Query)
  have kp: "keeps s2 (snd ?F)" using SetMetrics_keeps[of s2 L recs'] by (simp add: S2)
  have v1: "map_option gvalue (map_of (Result r1) k) = last_value L (Query r) ?ws k" if "k \<in> ?K" for k
  proof -
    from that keys have "k \<in> wkey L (Query r) ` set ?ws" by simp
    from last_value_Some[OF this] obtain f where "last_value L (Query r) ?ws k = Some f" by blast
    with fold_write_value[of L ?ws "[]" r k] f1 show ?thesis by simp
  qed
  have v2: "map_option gvalue (map_of (Result (snd ?F)) k) = last_value L (Query r) ?ws k" if "k \<in> ?K" for k
  proof -
    from that keys have "k \<in> wkey L (Query r) ` set ?ws" by simp
    from last_value_Some[OF this] obtain f where "last_value L (Query r) ?ws k = Some f" by blast
    with fold_write_value[of L ?ws' "[]" s2 k] show ?thesis
      by (simp add: q last_value_Name[OF nm] lv)
  qed
  have mo: "map_of (Result (snd ?F)) k = map_of (Result s2) k" for k
  proof (cases "k \<in> ?K")
    case True
    then obtain g where g: "map_of (Result s2) k = Some g" using doms by blast
    from kp g obtain g2 where g2: "map_of (Result (snd ?F)) k = Some g2" "g2\<lparr>gvalue := gvalue g\<rparr> = g"
      unfolding keeps_def by blast
    have "map_of (Result r1) k = Some g" using g ms[of k] True by simp
    then have "Some (gvalue g) = last_value L (Query r) ?ws k" using v1[OF True] by simp
    moreover have "Some (gvalue g2) = last_value L (Query r) ?ws k" using v2[OF True] g2(1) by simp
    ultimately have "gvalue g2 = gvalue g" by (metis option.inject)
    then have "g2 = g2\<lparr>gvalue := gvalue g\<rparr>" by simp
    with g2 g show ?thesis by simp
  next
    case False
    have "dom (map_of (Result (snd ?F))) = ?K"
      using fold_write_dom[of L ?ws' "[]" s2] by (simp add: q wk keys2 doms)
    with False doms show ?thesis by (metis domIff)
  qed
  have res: "Result (snd ?F) = Result s2"
  proof (rule alist_eqI[OF mk])
    show "distinct (map fst (Result (snd ?F)))" using wfs mk by (simp add: well_formed_def)
    show "map_of (Result (snd ?F)) = map_of (Result s2)" using mo by (rule ext)
  qed
  have eq: "snd ?F = s2"
    by (rule QueryResult.equality) (simp_all add: res fr pq)
  have d2: "dom (map_of (fst ?F)) = ?K"
  proof (rule set_eqI)
    fix k show "k \<in> dom (map_of (fst ?F)) \<longleftrightarrow> k \<in> ?K"
      using st[of k] st'[of k] by (cases "k \<in> ?K") (simp_all add: domIff)
  qed
  have allreg: "\<forall>k st. map_of (fst ?F) k = Some st \<longrightarrow> st = registered"
  proof (intro allI impI)
    fix k st assume h: "map_of (fst ?F) k = Some st"
    show "st = registered" using st[of k] st'[of k] h by (cases "k \<in> ?K") simp_all
  qed
  have first: "SetMetrics L s2 recs' = (Inr (fst ?F), s2)" using S2 eq by simp
  have "\<forall>kg \<in> set (Result s2). map_of (fst ?F) (fst kg) = Some registered"
  proof
    fix kg assume "kg \<in> set (Result s2)"
    then have "fst kg \<in> dom (map_of (Result s2))" by (simp add: dom_map_of_conv_image_fst)
    then show "map_of (fst ?F) (fst kg) = Some registered" using doms st by blast
  qed
  then have "RegisterMetrics s2 (fst ?F) = s2" by (rule RegisterMetrics_noop)
  then have second: "Worker_SetMetrics L s2 recs' = s2"
    by (simp add: Worker_SetMetrics_def[of L s2 recs'] first)
  from first d2 allreg second show ?thesis by blast
qed

lemma value_columns_perm:
  assumes "mset row' = mset row"
  shows "mset (value_columns L df row') = mset (value_columns L df row)"
  using assms mset_eq_length[OF assms] by (simp add: value_columns_def)

lemma value_columns_perm_cases:
  assumes "mset row' = mset row"
  shows "(value_columns L df row = [] \<longrightarrow> value_columns L df row' = [])
       \<and> (\<forall>kv. value_columns L df row = [kv] \<longrightarrow> value_columns L df row' = [kv])
       \<and> length (value_columns L df row') = length (value_columns L df row)"
proof -
  note m = value_columns_perm[OF assms, of L df]
  have l: "length (value_columns L df row') = length (value_columns L df row)"
    using mset_eq_length[OF m] .
  have "value_columns L df row' = [kv]" if "value_columns L df row = [kv]" for kv
  proof -
    from m that have "mset (value_columns L df row') = {#kv#}" by simp
    then show ?thesis by (simp add: mset_single_iff_right)
  qed
  with l show ?thesis by auto
qed

lemma facet_of_perm:
  assumes m: "mset row' = mset row"
    and d: "distinct (map (\<lambda>kv. ToLower L (fst kv)) row)"
  shows "distinct (map fst (facet_of L sm df row))"
    and "distinct (map fst (facet_of L sm df row'))"
    and "set (facet_of L sm df row') = set (facet_of L sm df row)"
proof -
  have "mset (map (\<lambda>kv. ToLower L (fst kv)) row') = mset (map (\<lambda>kv. ToLower L (fst kv)) row)"
    using m by simp
  then have d': "distinct (map (\<lambda>kv. ToLower L (fst kv)) row')"
    using d by (metis mset_eq_imp_distinct_iff)
  have k: "map fst (facet_of L sm df r) = map (\<lambda>kv. ToLower L (fst kv)) (facet_columns L sm df r)"
    if "distinct (map (\<lambda>kv. ToLower L (fst kv)) r)" for r
    unfolding facet_of_distinct[OF that] by simp
  have dd: "distinct (map (\<lambda>kv. ToLower L (fst kv)) (facet_columns L sm df r))"
    if "distinct (map (\<lambda>kv. ToLower L (fst kv)) r)" for r
    unfolding facet_columns_def using that by (rule distinct_map_filter)
  show "distinct (map fst (facet_of L sm df row))" using k[OF d] dd[OF d] by simp
  show "distinct (map fst (facet_of L sm df row'))" using k[OF d'] dd[OF d'] by simp
  have len: "length row' = length row" by (rule mset_eq_length[OF m])
  have st: "set row' = set row" by (rule mset_eq_setD[OF m])
  have "set (facet_columns L sm df row') = set (facet_columns L sm df row)"
    by (simp add: facet_columns_def len st)
  then show "set (facet_of L sm df row') = set (facet_of L sm df row)"
    unfolding facet_of_distinct[OF d] facet_of_distinct[OF d'] by simp
qed

lemma pair_outcome_perm:
  assumes m: "mset row' = mset row"
    and d: "distinct (map (\<lambda>kv. ToLower L (fst kv)) row)"
  shows "(case pair_outcome L sm row df of
            Inl e \<Rightarrow> isl (pair_outcome L sm row' df)
          | Inr (facet, f) \<Rightarrow>
              (\<exists>facet'. pair_outcome L sm row' df = Inr (facet', f)
                 \<and> resultKey L q facet' suffix = resultKey L q facet suffix))"
proof -
  note V = value_columns_perm_cases[OF m, of L df]
  note Fc = facet_of_perm[OF m d, of sm df]
  have key: "resultKey L q (facet_of L sm df row') suffix = resultKey L q (facet_of L sm df row) suffix"
    using Marshal_same_pairs[OF Fc(2) Fc(1) Fc(3), of L] by (simp add: resultKey_def)
  show ?thesis
  proof (cases "value_columns L df row")
    case Nil
    with V show ?thesis by (simp add: pair_outcome_def)
  next
    case (Cons kv rest)
    show ?thesis
    proof (cases rest)
      case Nil
      with Cons V have "value_columns L df row' = [kv]" by blast
      with Cons Nil key show ?thesis
        by (auto simp: pair_outcome_def split: sum.splits)
    next
      case (Cons kv2 rest2)
      with \<open>value_columns L df row = kv # rest\<close> V
      have "length (value_columns L df row') = Suc (Suc (length rest2))" by simp
      then obtain a b c where "value_columns L df row' = a # b # c"
        by (metis length_Suc_conv)
      with Cons \<open>value_columns L df row = kv # rest\<close> show ?thesis
        by (simp add: pair_outcome_def)
    qed
  qed
qed

lemma row_writes_perm:
  assumes m: "mset row' = mset row"
    and d: "distinct (map (\<lambda>kv. ToLower L (fst kv)) row)"
    and ok: "\<forall>sd \<in> set sds. \<not> isl (pair_outcome L sm row (snd sd))"
  shows "map (\<lambda>w. (wkey L q w, snd (snd w))) (row_writes L sm row' sds)
           = map (\<lambda>w. (wkey L q w, snd (snd w))) (row_writes L sm row sds)
       \<and> (\<forall>sd \<in> set sds. \<not> isl (pair_outcome L sm row' (snd sd)))"
  using ok
proof (induction sds)
  case Nil
  then show ?case by (simp add: row_writes_def)
next
  case (Cons sd sds)
  from Cons.prems obtain facet f where po: "pair_outcome L sm row (snd sd) = Inr (facet, f)"
    by (cases "pair_outcome L sm row (snd sd)") auto
  from pair_outcome_perm[OF m d, of sm "snd sd" q "fst sd"] po
  obtain facet' where po': "pair_outcome L sm row' (snd sd) = Inr (facet', f)"
      "resultKey L q facet' (fst sd) = resultKey L q facet (fst sd)"
    by auto
  have r: "row_writes L sm row (sd # sds) = (fst sd, facet, f) # row_writes L sm row sds"
    "row_writes L sm row' (sd # sds) = (fst sd, facet', f) # row_writes L sm row' sds"
    by (simp_all add: row_writes_def po po')
  from Cons.IH Cons.prems have IH:
    "map (\<lambda>w. (wkey L q w, snd (snd w))) (row_writes L sm row' sds)
           = map (\<lambda>w. (wkey L q w, snd (snd w))) (row_writes L sm row sds)"
    "\<forall>sd \<in> set sds. \<not> isl (pair_outcome L sm row' (snd sd))"
    by simp_all
  show ?case unfolding r using IH po'
    by (simp add: wkey_def)
qed

lemma metricName_inj: "metricName q s = metricName q s' \<Longrightarrow> s = s'"
  by (auto simp: metricName_def split: if_splits)

lemma facet_columns_any_datafield:
  assumes "df \<in> snd ` set sm" and "df' \<in> snd ` set sm"
  shows "facet_columns L sm df row = facet_columns L sm df' row"
  unfolding facet_columns_def is_value_column_def
  by (rule filter_cong) (use assms in auto)

lemma facet_of_any_datafield:
  assumes "df \<in> snd ` set sm" and "df' \<in> snd ` set sm"
  shows "facet_of L sm df row = facet_of L sm df' row"
  by (simp add: facet_of_def facet_columns_any_datafield[OF assms])

lemma pair_outcome_same_datafields:
  assumes "snd ` set sm' = snd ` set sm"
  shows "pair_outcome L sm' row df = pair_outcome L sm row df"
proof -
  have "facet_of L sm' df row = facet_of L sm df row"
    by (simp add: facet_of_def facet_columns_def assms)
  then show ?thesis unfolding pair_outcome_def by (simp only:)
qed

lemma row_writes_same_datafields:
  assumes "snd ` set sm' = snd ` set sm"
  shows "row_writes L sm' row sds = row_writes L sm row sds"
  by (simp add: row_writes_def pair_outcome_same_datafields[OF assms])

lemma mset_concat_map_cong:
  assumes "mset xs = mset ys"
  shows "mset (concat (map g xs)) = mset (concat (map g ys))"
proof -
  have "mset (concat (map g zs)) = (\<Sum>z\<in>#mset zs. mset (g z))" for zs
    by (induction zs) simp_all
  with assms show ?thesis by simp
qed

lemma row_writes_submetrics_perm:
  assumes "mset sds' = mset sds"
  shows "mset (row_writes L sm row sds') = mset (row_writes L sm row sds)"
  unfolding row_writes_def by (rule mset_concat_map_cong[OF assms])

lemma row_writes_map:
  assumes "\<forall>sd \<in> set sds. \<not> isl (pair_outcome L sm row (snd sd))"
  shows "map (wkey L q) (row_writes L sm row sds)
           = map (\<lambda>sd. resultKey L q (facet_of L sm (snd sd) row) (fst sd)) sds"
  using assms
proof (induction sds)
  case Nil
  then show ?case by (simp add: row_writes_def)
next
  case (Cons sd sds)
  from Cons.prems obtain facet f where po: "pair_outcome L sm row (snd sd) = Inr (facet, f)"
    by (cases "pair_outcome L sm row (snd sd)") auto
  then have fc: "facet = facet_of L sm (snd sd) row"
    by (auto simp: pair_outcome_def split: list.splits sum.splits)
  have r: "row_writes L sm row (sd # sds) = (fst sd, facet, f) # row_writes L sm row sds"
    by (simp add: row_writes_def po)
  from Cons.IH Cons.prems show ?case unfolding r by (simp add: wkey_def fc)
qed

lemma row_writes_distinct_keys:
  assumes ok: "\<forall>sd \<in> set sm. \<not> isl (pair_outcome L sm row (snd sd))"
    and ds: "distinct (map fst sm)"
  shows "distinct (map (wkey L q) (row_writes L sm row sm))"
proof -
  have d: "distinct sm" and i: "inj_on fst (set sm)" using ds by (simp_all add: distinct_map)
  have "inj_on (\<lambda>sd. resultKey L q (facet_of L sm (snd sd) row) (fst sd)) (set sm)"
  proof (rule inj_onI)
    fix a b assume a: "a \<in> set sm" and b: "b \<in> set sm"
      and e: "resultKey L q (facet_of L sm (snd a) row) (fst a)
                = resultKey L q (facet_of L sm (snd b) row) (fst b)"
    have "facet_of L sm (snd a) row = facet_of L sm (snd b) row"
      by (rule facet_of_any_datafield) (use a b in auto)
    with e have "metricName q (fst a) = metricName q (fst b)" by (simp add: resultKey_def)
    then have "fst a = fst b" by (rule metricName_inj)
    with i a b show "a = b" by (auto dest: inj_onD)
  qed
  with d show ?thesis unfolding row_writes_map[OF ok] by (simp add: distinct_map)
qed

lemma row_round_any_order:
  assumes m: "mset row' = mset row"
    and d: "distinct (map (\<lambda>kv. ToLower L (fst kv)) row)"
    and ms: "mset sm' = mset sm"
    and ds: "distinct (map fst sm)"
    and ok: "\<forall>sd \<in> set sm. \<not> isl (pair_outcome L sm row (snd sd))"
  shows "\<forall>sd \<in> set sm'. \<not> isl (pair_outcome L sm' row' (snd sd))"
    and "map_of (rev (map (\<lambda>w. (wkey L q w, snd (snd w))) (row_writes L sm' row' sm')))
           = map_of (rev (map (\<lambda>w. (wkey L q w, snd (snd w))) (row_writes L sm row sm)))"
    and "wkey L q ` set (row_writes L sm' row' sm') = wkey L q ` set (row_writes L sm row sm)"
proof -
  let ?kv = "\<lambda>w. (wkey L q w, snd (snd w))"
  have st: "set sm' = set sm" by (rule mset_eq_setD[OF ms])
  then have sn: "snd ` set sm' = snd ` set sm" by simp
  note P = row_writes_perm[OF m d ok, of q]
  have ok': "\<forall>sd \<in> set sm. \<not> isl (pair_outcome L sm row' (snd sd))" using P by blast
  show a: "\<forall>sd \<in> set sm'. \<not> isl (pair_outcome L sm' row' (snd sd))"
    using ok' by (simp add: st pair_outcome_same_datafields[OF sn])
  have e1: "row_writes L sm' row' sm' = row_writes L sm row' sm'"
    by (rule row_writes_same_datafields[OF sn])
  have "mset (row_writes L sm row' sm') = mset (row_writes L sm row' sm)"
    by (rule row_writes_submetrics_perm[OF ms])
  then have "mset (map ?kv (row_writes L sm row' sm')) = mset (map ?kv (row_writes L sm row' sm))"
    by simp
  also have "map ?kv (row_writes L sm row' sm) = map ?kv (row_writes L sm row sm)" using P by blast
  finally have pm: "mset (map ?kv (row_writes L sm' row' sm')) = mset (map ?kv (row_writes L sm row sm))"
    by (simp add: e1)
  have d1: "distinct (map fst (map ?kv (row_writes L sm row sm)))"
    using row_writes_distinct_keys[OF ok ds, of q] by (simp add: comp_def)
  have mk: "mset (map fst (map ?kv (row_writes L sm' row' sm'))) = mset (map fst (map ?kv (row_writes L sm row sm)))"
    using arg_cong[OF pm, of "image_mset fst"] by (simp only: mset_map)
  have d2: "distinct (map fst (map ?kv (row_writes L sm' row' sm')))"
    using d1 mset_eq_imp_distinct_iff[OF mk] by blast
  have se: "set (map ?kv (row_writes L sm' row' sm')) = set (map ?kv (row_writes L sm row sm))"
    by (rule mset_eq_setD[OF pm])
  have r1: "distinct (map fst (rev (map ?kv (row_writes L sm row sm))))"
    using d1 by (simp only: rev_map[symmetric] distinct_rev)
  have r2: "distinct (map fst (rev (map ?kv (row_writes L sm' row' sm'))))"
    using d2 by (simp only: rev_map[symmetric] distinct_rev)
  have "set (rev (map ?kv (row_writes L sm' row' sm'))) = set (rev (map ?kv (row_writes L sm row sm)))"
    using se by (simp only: set_rev)
  then have "map_of (rev (map ?kv (row_writes L sm' row' sm'))) = map_of (rev (map ?kv (row_writes L sm row sm)))"
    by (simp only: map_of_inject_set[OF r2 r1])
  then show "map_of (rev (map ?kv (row_writes L sm' row' sm')))
           = map_of (rev (map ?kv (row_writes L sm row sm)))" .
  have "fst ` set (map ?kv (row_writes L sm' row' sm')) = fst ` set (map ?kv (row_writes L sm row sm))"
    using se by simp
  then show "wkey L q ` set (row_writes L sm' row' sm') = wkey L q ` set (row_writes L sm row sm)"
    by (simp add: image_image)
qed

lemma last_value_append:
  "last_value L q (a @ b) = last_value L q a ++ last_value L q b"
  by (simp add: last_value_def map_of_append)

lemma writes_Cons: "writes L sm (row # recs) = row_writes L sm row sm @ writes L sm recs"
  by (simp add: writes_def)

lemma writes_any_order:
  assumes "list_all2 (\<lambda>row' row. mset row' = mset row) recs' recs"
    and "\<forall>row \<in> set recs. distinct (map (\<lambda>kv. ToLower L (fst kv)) row)"
    and ms: "mset sm' = mset sm"
    and ds: "distinct (map fst sm)"
    and "\<forall>row \<in> set recs. \<forall>sd \<in> set sm. \<not> isl (pair_outcome L sm row (snd sd))"
  shows "(\<forall>row \<in> set recs'. \<forall>sd \<in> set sm'. \<not> isl (pair_outcome L sm' row (snd sd)))
       \<and> last_value L q (writes L sm' recs') = last_value L q (writes L sm recs)
       \<and> wkey L q ` set (writes L sm' recs') = wkey L q ` set (writes L sm recs)"
  using assms(1,2,5)
proof (induction recs' recs rule: list_all2_induct)
  case Nil
  then show ?case by (simp add: writes_def)
next
  case (Cons row' recs' row recs)
  have d: "distinct (map (\<lambda>kv. ToLower L (fst kv)) row)" using Cons.prems(1) by simp
  have ok: "\<forall>sd \<in> set sm. \<not> isl (pair_outcome L sm row (snd sd))" using Cons.prems(2) by simp
  note R = row_round_any_order(1)[OF Cons.hyps(1) d ms ds ok]
    row_round_any_order(2,3)[OF Cons.hyps(1) d ms ds ok, where q = q]
  have lr: "last_value L q (row_writes L sm' row' sm') = last_value L q (row_writes L sm row sm)"
    unfolding last_value_def by (rule R(2))
  have I: "(\<forall>row \<in> set recs'. \<forall>sd \<in> set sm'. \<not> isl (pair_outcome L sm' row (snd sd)))
       \<and> last_value L q (writes L sm' recs') = last_value L q (writes L sm recs)
       \<and> wkey L q ` set (writes L sm' recs') = wkey L q ` set (writes L sm recs)"
    using Cons.prems by (intro Cons.IH) simp_all
  have a: "\<forall>row \<in> set (row' # recs'). \<forall>sd \<in> set sm'. \<not> isl (pair_outcome L sm' row (snd sd))"
    using R(1) I by simp
  have b: "last_value L q (writes L sm' (row' # recs')) = last_value L q (writes L sm (row # recs))"
    unfolding writes_Cons last_value_append using lr I by simp
  have c: "wkey L q ` set (writes L sm' (row' # recs')) = wkey L q ` set (writes L sm (row # recs))"
    unfolding writes_Cons set_append image_Un using R(3) I by simp
  from a b c show ?case by blast
qed

lemma submetrics_of_any_order:
  assumes "DataField q' = DataField q" and "mset (SubMetrics q') = mset (SubMetrics q)"
  shows "mset (submetrics_of q') = mset (submetrics_of q)"
proof (cases "SubMetrics q = []")
  case True
  with assms(2) have "SubMetrics q' = []" by simp
  with True assms(1) show ?thesis by (simp add: submetrics_of_def)
next
  case False
  with assms(2) have "SubMetrics q' \<noteq> []" by auto
  with False assms(2) show ?thesis by (simp add: submetrics_of_def)
qed

lemma submetrics_of_distinct:
  "distinct (map fst (SubMetrics q)) \<Longrightarrow> distinct (map fst (submetrics_of q))"
  by (simp add: submetrics_of_def)

lemma same_rows_first_check:
  assumes "list_all2 (\<lambda>row' row. mset row' = mset row) recs' recs"
  shows "(length recs' > 1 \<and> length (hd recs') = 1) = (length recs > 1 \<and> length (hd recs) = 1)"
proof (cases recs')
  case Nil
  with assms show ?thesis by simp
next
  case (Cons x xs)
  with assms obtain y ys where "recs = y # ys" "mset x = mset y" "length xs = length ys"
    by (auto simp: list_all2_Cons1 dest: list_all2_lengthD)
  with Cons show ?thesis by (auto dest: mset_eq_length)
qed

lemma second_round_on_permuted_maps:
  assumes wf: "well_formed r"
    and S1: "SetMetrics L r recs = (Inr fwr, r1)"
    and d: "\<forall>row \<in> set recs. distinct (map (\<lambda>kv. ToLower L (fst kv)) row)"
    and ds: "distinct (map fst (SubMetrics (Query r)))"
    and sr: "same_rows recs' recs"
    and res: "Result s2 = Result (Worker_SetMetrics L r recs)"
    and fr: "fresh s2 = fresh (Worker_SetMetrics L r recs)"
    and nm: "Name (Query s2) = Name (Query r)"
    and df: "DataField (Query s2) = DataField (Query r)"
    and sm: "mset (SubMetrics (Query s2)) = mset (SubMetrics (Query r))"
  shows "(\<exists>fwr2.
            SetMetrics L s2 recs' = (Inr fwr2, s2)
          \<and> dom (map_of fwr2) = produced_keys L (Query r) recs
          \<and> (\<forall>k st. map_of fwr2 k = Some st \<longrightarrow> st = registered))
       \<and> Worker_SetMetrics L s2 recs' = s2"
proof -
  have la: "list_all2 (\<lambda>row' row. mset row' = mset row) recs' recs"
    using sr by (simp add: same_rows_def)
  have n1: "\<not> isl (fst (SetMetrics L r recs))" using S1 by simp
  then have pre: "\<not> (length recs > 1 \<and> length (hd recs) = 1)"
      "\<not> (DataField (Query r) \<noteq> [] \<and> SubMetrics (Query r) \<noteq> [])"
    and ok: "\<forall>row \<in> set recs. \<forall>sd \<in> set (submetrics_of (Query r)).
             \<not> isl (pair_outcome L (submetrics_of (Query r)) row (snd sd))"
    unfolding SetMetrics_isl by blast+
  note W = writes_any_order[OF la d submetrics_of_any_order[OF df sm]
              submetrics_of_distinct[OF ds] ok, of "Query r"]
  have e: "(SubMetrics (Query s2) = []) = (SubMetrics (Query r) = [])"
    using sm by (metis mset_zero_iff)
  have n2: "\<not> isl (fst (SetMetrics L s2 recs'))"
    unfolding SetMetrics_isl same_rows_first_check[OF la] df e using pre W by blast
  have s2: "s2 = (Worker_SetMetrics L r recs)\<lparr>Query := Query s2, published := published s2\<rparr>"
    by (rule QueryResult.equality) (simp_all add: res fr)
  from W have k: "wkey L (Query r) ` set (writes L (submetrics_of (Query s2)) recs')
                  = wkey L (Query r) ` set (writes L (submetrics_of (Query r)) recs)"
    and lv: "last_value L (Query r) (writes L (submetrics_of (Query s2)) recs')
               = last_value L (Query r) (writes L (submetrics_of (Query r)) recs)"
    by blast+
  show ?thesis by (rule second_round_any_order[OF wf S1 s2 nm n2 k lv])
qed

text \<open>
  C2. A record set is a list of Go maps and the sub-metrics of the query are a Go map, so
  a second round holds the identical data when each row has the same columns and the
  query the same sub-metrics, visited in any order; a map has each key once, so each
  suffix occurs once among the sub-metrics. Let the column names of each row be
  distinct after lower-casing, let \<^verbatim>\<open>SetMetrics\<close> succeed on the record set from a registry
  whose entries have distinct keys and handles, and let the worker finish the round.
  Then a second round over the same rows and sub-metrics, in any visiting order, succeeds,
  records exactly the produced keys, each with status \<^verbatim>\<open>registered\<close>, and leaves the
  registry as it was: the same entries under the same keys, with the same handles and
  values, no handle allocated and the published handles untouched. The register pass that
  follows changes nothing either, so the whole second round returns the state it started
  from. This is proved for every state \<open>s2\<close> that holds the entries left by the first
  round, whatever its list of published handles, and stated again for the state the
  first round returned.
\<close>

theorem C2_idempotent:
  assumes "well_formed r"
    and "SetMetrics L r recs = (Inr fwr, r1)"
    and "\<forall>row \<in> set recs. distinct (map (\<lambda>kv. ToLower L (fst kv)) row)"
    and "distinct (map fst (SubMetrics (Query r)))"
    and "same_rows recs' recs"
    and "Result s2 = Result (Worker_SetMetrics L r recs)"
    and "fresh s2 = fresh (Worker_SetMetrics L r recs)"
    and "Name (Query s2) = Name (Query r)"
    and "DataField (Query s2) = DataField (Query r)"
    and "mset (SubMetrics (Query s2)) = mset (SubMetrics (Query r))"
  shows "(\<exists>fwr2.
            SetMetrics L s2 recs' = (Inr fwr2, s2)
          \<and> dom (map_of fwr2) = produced_keys L (Query r) recs
          \<and> (\<forall>k st. map_of fwr2 k = Some st \<longrightarrow> st = registered))
       \<and> Worker_SetMetrics L s2 recs' = s2
       \<and> (\<exists>fwr2.
            SetMetrics L (Worker_SetMetrics L r recs) recs' = (Inr fwr2, Worker_SetMetrics L r recs)
          \<and> dom (map_of fwr2) = produced_keys L (Query r) recs
          \<and> (\<forall>k st. map_of fwr2 k = Some st \<longrightarrow> st = registered))
       \<and> Worker_SetMetrics L (Worker_SetMetrics L r recs) recs' = Worker_SetMetrics L r recs"
proof -
  note F = SetMetrics_success_facts[OF assms(2)]
  have q: "Query (Worker_SetMetrics L r recs) = Query r"
    using assms(2) by (simp add: Worker_SetMetrics_def RegisterMetrics_Query F(3))
  note A = second_round_on_permuted_maps[OF assms]
  note B = second_round_on_permuted_maps[OF assms(1-5) refl refl, unfolded q, OF refl refl refl]
  from A B show ?thesis by blast
qed

lemma traffic_round:
  "SetMetrics go_lib (NewQueryResult traffic_query) [traffic_row ''a'' 1 2, traffic_row ''b'' 3 4]
     = (Inr [(traffic_key ''in'' ''a'', unregistered), (traffic_key ''out'' ''a'', unregistered),
             (traffic_key ''in'' ''b'', unregistered), (traffic_key ''out'' ''b'', unregistered)],
        \<lparr>Query = traffic_query, Result = traffic_entries, published = [], fresh = 4\<rparr>)"
  "Worker_SetMetrics go_lib (NewQueryResult traffic_query) [traffic_row ''a'' 1 2, traffic_row ''b'' 3 4]
     = \<lparr>Query = traffic_query, Result = traffic_entries, published = [0, 1, 2, 3], fresh = 4\<rparr>"
  by code_simp+

lemma traffic_rows:
  "distinct (map (\<lambda>kv. ToLower go_lib (fst kv)) (traffic_row ''a'' 1 2))"
  "distinct (map (\<lambda>kv. ToLower go_lib (fst kv)) (traffic_row ''b'' 3 4))"
  "distinct (map fst (SubMetrics traffic_query))"
  by code_simp+

lemma traffic_same_maps:
  "same_rows [[(''tx'', VInt 2), (''host'', VString ''a''), (''rx'', VInt 1)],
              [(''rx'', VInt 3), (''tx'', VInt 4), (''host'', VString ''b'')]]
             [traffic_row ''a'' 1 2, traffic_row ''b'' 3 4]"
  "mset (SubMetrics traffic_query_rev) = mset (SubMetrics traffic_query)"
  "Name traffic_query_rev = Name traffic_query"
  "DataField traffic_query_rev = DataField traffic_query"
  by (simp_all add: same_rows_def traffic_row_def traffic_query_def traffic_query_rev_def)

theorem C2_idempotent_witness:
  "well_formed (NewQueryResult traffic_query :: rat QueryResult)
   \<and> SetMetrics go_lib (NewQueryResult traffic_query) [traffic_row ''a'' 1 2, traffic_row ''b'' 3 4]
       = (Inr [(traffic_key ''in'' ''a'', unregistered), (traffic_key ''out'' ''a'', unregistered),
               (traffic_key ''in'' ''b'', unregistered), (traffic_key ''out'' ''b'', unregistered)],
          \<lparr>Query = traffic_query, Result = traffic_entries, published = [], fresh = 4\<rparr>)
   \<and> Worker_SetMetrics go_lib (NewQueryResult traffic_query) [traffic_row ''a'' 1 2, traffic_row ''b'' 3 4]
       = \<lparr>Query = traffic_query, Result = traffic_entries, published = [0, 1, 2, 3], fresh = 4\<rparr>
   \<and> distinct (map (\<lambda>kv. ToLower go_lib (fst kv)) (traffic_row ''a'' 1 2))
   \<and> distinct (map (\<lambda>kv. ToLower go_lib (fst kv)) (traffic_row ''b'' 3 4))
   \<and> distinct (map fst (SubMetrics traffic_query))
   \<and> same_rows [[(''tx'', VInt 2), (''host'', VString ''a''), (''rx'', VInt 1)],
                [(''rx'', VInt 3), (''tx'', VInt 4), (''host'', VString ''b'')]]
               [traffic_row ''a'' 1 2, traffic_row ''b'' 3 4]
   \<and> mset (SubMetrics traffic_query_rev) = mset (SubMetrics traffic_query)
   \<and> Name traffic_query_rev = Name traffic_query
   \<and> DataField traffic_query_rev = DataField traffic_query
   \<and> (\<exists>fwr2. SetMetrics go_lib
          \<lparr>Query = traffic_query_rev, Result = traffic_entries, published = [0, 1, 2, 3], fresh = 4\<rparr>
          [[(''tx'', VInt 2), (''host'', VString ''a''), (''rx'', VInt 1)],
           [(''rx'', VInt 3), (''tx'', VInt 4), (''host'', VString ''b'')]]
        = (Inr fwr2,
           \<lparr>Query = traffic_query_rev, Result = traffic_entries, published = [0, 1, 2, 3], fresh = 4\<rparr>)
        \<and> (\<forall>k st. map_of fwr2 k = Some st \<longrightarrow> st = registered))
   \<and> Worker_SetMetrics go_lib
          \<lparr>Query = traffic_query_rev, Result = traffic_entries, published = [0, 1, 2, 3], fresh = 4\<rparr>
          [[(''tx'', VInt 2), (''host'', VString ''a''), (''rx'', VInt 1)],
           [(''rx'', VInt 3), (''tx'', VInt 4), (''host'', VString ''b'')]]
       = \<lparr>Query = traffic_query_rev, Result = traffic_entries, published = [0, 1, 2, 3], fresh = 4\<rparr>
   \<and> Worker_SetMetrics go_lib
          \<lparr>Query = traffic_query, Result = traffic_entries, published = [0, 1, 2, 3], fresh = 4\<rparr>
          [[(''tx'', VInt 2), (''host'', VString ''a''), (''rx'', VInt 1)],
           [(''rx'', VInt 3), (''tx'', VInt 4), (''host'', VString ''b'')]]
       = \<lparr>Query = traffic_query, Result = traffic_entries, published = [0, 1, 2, 3], fresh = 4\<rparr>"
proof -
  let ?s = "\<lparr>Query = traffic_query, Result = traffic_entries, published = [0, 1, 2, 3], fresh = 4\<rparr>"
  let ?s2 = "\<lparr>Query = traffic_query_rev, Result = traffic_entries, published = [0, 1, 2, 3], fresh = 4\<rparr>"
  let ?recs = "[traffic_row ''a'' 1 2, traffic_row ''b'' 3 4]"
  let ?recs' = "[[(''tx'', VInt 2), (''host'', VString ''a''), (''rx'', VInt 1)],
                 [(''rx'', VInt 3), (''tx'', VInt 4), (''host'', VString ''b'' :: rat iface)]]"
  have d: "\<forall>row \<in> set ?recs. distinct (map (\<lambda>kv. ToLower go_lib (fst kv)) row)"
    using traffic_rows(1,2) by simp
  have q: "Query (NewQueryResult traffic_query :: rat QueryResult) = traffic_query"
    by (simp add: NewQueryResult_def)
  have h: "Result ?s2 = Result ?s" "fresh ?s2 = fresh ?s" "Name (Query ?s2) = Name traffic_query"
    "DataField (Query ?s2) = DataField traffic_query"
    "mset (SubMetrics (Query ?s2)) = mset (SubMetrics traffic_query)"
    using traffic_same_maps by simp_all
  note T = C2_idempotent[of "NewQueryResult traffic_query" go_lib ?recs _ _ ?recs' ?s2,
      unfolded q traffic_round(2), OF well_formed_New traffic_round(1) d traffic_rows(3)
        traffic_same_maps(1) h]
  from T have a: "\<exists>fwr2. SetMetrics go_lib ?s2 ?recs' = (Inr fwr2, ?s2)
        \<and> (\<forall>k st. map_of fwr2 k = Some st \<longrightarrow> st = registered)"
    by blast
  from T have b: "Worker_SetMetrics go_lib ?s2 ?recs' = ?s2" by blast
  from T have c: "Worker_SetMetrics go_lib ?s ?recs' = ?s" by blast
  from well_formed_New traffic_round traffic_rows traffic_same_maps a b c show ?thesis by blast
qed

text \<open>
  Without the hypothesis on the column names the second round can replace an entry. The
  row \<^verbatim>\<open>{"Host": "x", "host": "y", "v": 1}\<close> has two columns with the lower-cased name
  \<^verbatim>\<open>host\<close>, and the facet keeps the value of the one visited last. Visited as \<^verbatim>\<open>Host\<close>,
  \<^verbatim>\<open>host\<close>, \<^verbatim>\<open>v\<close> the row gives the series of host \<^verbatim>\<open>y\<close>; the same row visited as \<^verbatim>\<open>host\<close>,
  \<^verbatim>\<open>Host\<close>, \<^verbatim>\<open>v\<close> in the second round gives the series of host \<^verbatim>\<open>x\<close>: a gauge is created
  and published under a new key, and the entry of the first round is unregistered and
  deleted.
\<close>

theorem C2_colliding_column_names_replace_the_entry:
  "same_rows [[(''host'', VString ''y''), (''Host'', VString ''x''), (''v'', VFloat64 (1 :: rat))]]
             [[(''Host'', VString ''x''), (''host'', VString ''y''), (''v'', VFloat64 1)]]
   \<and> Worker_SetMetrics go_lib (NewQueryResult host_query)
         [[(''Host'', VString ''x''), (''host'', VString ''y''), (''v'', VFloat64 1)]]
       = \<lparr>Query = host_query, Result = [(host_key ''y'', host_gauge 0 ''y'' 1)],
          published = [0], fresh = 1\<rparr>
   \<and> Worker_SetMetrics go_lib
         \<lparr>Query = host_query, Result = [(host_key ''y'', host_gauge 0 ''y'' 1)],
          published = [0], fresh = 1\<rparr>
         [[(''host'', VString ''y''), (''Host'', VString ''x''), (''v'', VFloat64 1)]]
       = \<lparr>Query = host_query, Result = [(host_key ''x'', host_gauge 1 ''x'' 1)],
          published = [1], fresh = 2\<rparr>"
proof -
  have a: "same_rows [[(''host'', VString ''y''), (''Host'', VString ''x''), (''v'', VFloat64 (1 :: rat))]]
             [[(''Host'', VString ''x''), (''host'', VString ''y''), (''v'', VFloat64 1)]]"
    by (simp add: same_rows_def)
  have b: "Worker_SetMetrics go_lib (NewQueryResult host_query)
         [[(''Host'', VString ''x''), (''host'', VString ''y''), (''v'', VFloat64 1)]]
       = \<lparr>Query = host_query, Result = [(host_key ''y'', host_gauge 0 ''y'' 1)],
          published = [0], fresh = 1\<rparr>"
    by code_simp
  have c: "Worker_SetMetrics go_lib
         \<lparr>Query = host_query, Result = [(host_key ''y'', host_gauge 0 ''y'' 1)],
          published = [0], fresh = 1\<rparr>
         [[(''host'', VString ''y''), (''Host'', VString ''x''), (''v'', VFloat64 1)]]
       = \<lparr>Query = host_query, Result = [(host_key ''x'', host_gauge 1 ''x'' 1)],
          published = [1], fresh = 2\<rparr>"
    by code_simp
  from a b c show ?thesis by blast
qed

end
